theory Spec2Isabelle
  imports Main "HOL-Library.AList"
begin

section \<open>fastNLP.io.file_utils: the download cache\<close>

text \<open>
  A shallow embedding of \<^verbatim>\<open>src/fastNLP/io/file_utils.py\<close>. Python strings are
  \<open>string\<close>, exceptions are values of the datatype \<open>error\<close>, and every function that
  touches the disk or the network takes the world it runs in and returns the world it
  leaves, also when it raises.
\<close>

subsection \<open>String helpers of the Python library\<close>

definition newline :: char where
  "newline = CHR 0x0A"

text \<open>\<^verbatim>\<open>str.endswith\<close>.\<close>

definition endswith :: "string \<Rightarrow> string \<Rightarrow> bool" where
  "endswith s suf = (length suf \<le> length s \<and> drop (length s - length suf) s = suf)"

text \<open>
  \<^verbatim>\<open>os.path.basename\<close> of posixpath: the text after the last slash, the whole
  string when there is none.
\<close>

definition basename :: "string \<Rightarrow> string" where
  "basename p = rev (takeWhile (\<lambda>c. c \<noteq> CHR ''/'') (rev p))"

text \<open>
  \<^verbatim>\<open>os.path.splitext\<close> of posixpath (\<^verbatim>\<open>genericpath._splitext\<close> with separator
  \<^verbatim>\<open>/\<close> and extension separator \<^verbatim>\<open>.\<close>): the extension starts at the last dot
  when that dot lies after the last slash and some character other than a dot stands
  between the slash and it; otherwise the extension is empty.
\<close>

definition splitext :: "string \<Rightarrow> string \<times> string" where
  "splitext p =
     (let b = basename p;
          ext_len = Suc (length (takeWhile (\<lambda>c. c \<noteq> CHR ''.'') (rev b)));
          stem = take (length b - ext_len) b
      in if CHR ''.'' \<in> set b \<and> list_ex (\<lambda>c. c \<noteq> CHR ''.'') stem
         then (take (length p - ext_len) p, drop (length p - ext_len) p)
         else (p, ''''))"

subsection \<open>split_filename_suffix\<close>

text \<open>
  \<^verbatim>\<open>
  filename = os.path.basename(filepath)
  if filename.endswith('.tar.gz'):
      return filename[:-7], '.tar.gz'
  return os.path.splitext(filename)
  \<close>
\<close>

definition split_filename_suffix :: "string \<Rightarrow> string \<times> string" where
  "split_filename_suffix filepath =
     (let filename = basename filepath
      in if endswith filename ''.tar.gz''
         then (take (length filename - 7) filename, ''.tar.gz'')
         else splitext filename)"

subsection \<open>Exceptions\<close>

text \<open>
  The exceptions the module and the library calls it makes can raise. \<open>ReError\<close> is
  \<^verbatim>\<open>re.error\<close>. \<open>PatternOutsideFragment\<close> is no exception of Python: only the
  matcher of the example environments returns it, for a regular expression it does not
  cover.
\<close>

datatype error =
    FileNotFoundError
  | FileExistsError
  | NotADirectoryError
  | IsADirectoryError
  | SameFileError
  | OSError
  | ValueError
  | RuntimeError
  | HTTPError
  | ConnectionError
  | BadArchive
  | AttributeError
  | TypeError
  | ReError
  | PatternOutsideFragment

subsection \<open>Regular expressions\<close>

text \<open>
  \<^verbatim>\<open>match_file\<close> builds its patterns from the name it looks for, unescaped, and hands
  them to \<^verbatim>\<open>re.match\<close>. The module takes the regular-expression engine from outside
  (the field \<open>re_match\<close> of the environment below): a call either raises or tells whether
  the pattern matches at the start of the string.

  The example environments use the matcher \<open>re_match_fragment\<close>. It computes what
  \<^verbatim>\<open>re.match\<close> computes for patterns made of ordinary characters, the dot (any
  character but a newline), an escaped punctuation character, the end anchor \<^verbatim>\<open>$\<close> (the
  end of the string, or just before a newline that ends it) and a star after a single
  character or dot. For any other pattern it returns \<open>PatternOutsideFragment\<close>.
\<close>

datatype chr_class = Lit char | AnyChar

datatype atom = One chr_class | Star chr_class | Eol

definition backslash :: char where
  "backslash = CHR 0x5C"

definition re_quantifier :: "char \<Rightarrow> bool" where
  "re_quantifier c = (c \<in> set ''*+?{'')"

definition re_unmodelled :: "char \<Rightarrow> bool" where
  "re_unmodelled c = (c \<in> set ''^*+?{}[]()|'')"

definition alnum :: "char \<Rightarrow> bool" where
  "alnum c = (let n = of_char c :: nat
              in (48 \<le> n \<and> n \<le> 57) \<or> (65 \<le> n \<and> n \<le> 90) \<or> (97 \<le> n \<and> n \<le> 122) \<or> 128 \<le> n)"

fun re_parse :: "string \<Rightarrow> atom list option"
  and re_quant :: "chr_class \<Rightarrow> string \<Rightarrow> atom list option" where
  "re_parse [] = Some []"
| "re_parse (c # cs) =
     (if c = CHR ''$'' then map_option (Cons Eol) (re_parse cs)
      else if c = backslash then
        (case cs of
           [] \<Rightarrow> None
         | e # cs' \<Rightarrow> if alnum e then None else re_quant (Lit e) cs')
      else if re_unmodelled c then None
      else re_quant (if c = CHR ''.'' then AnyChar else Lit c) cs)"
| "re_quant k [] = Some [One k]"
| "re_quant k (q # cs) =
     (if q = CHR ''*'' then
        (case cs of
           [] \<Rightarrow> Some [Star k]
         | q2 # cs' \<Rightarrow> if re_quantifier q2 then None
                      else map_option (Cons (Star k)) (re_parse cs))
      else map_option (Cons (One k)) (re_parse (q # cs)))"

fun class_ok :: "chr_class \<Rightarrow> char \<Rightarrow> bool" where
  "class_ok (Lit c) x = (x = c)"
| "class_ok AnyChar x = (x \<noteq> newline)"

text \<open>\<^verbatim>\<open>re.match\<close> anchors at the start of the string and accepts any matched prefix.\<close>

fun re_run :: "atom list \<Rightarrow> string \<Rightarrow> bool" where
  "re_run [] s = True"
| "re_run (One k # as) s = (case s of [] \<Rightarrow> False | x # xs \<Rightarrow> class_ok k x \<and> re_run as xs)"
| "re_run (Eol # as) s = ((s = [] \<or> s = [newline]) \<and> re_run as s)"
| "re_run (Star k # as) s =
     (re_run as s \<or> (case s of [] \<Rightarrow> False | x # xs \<Rightarrow> class_ok k x \<and> re_run (Star k # as) xs))"

definition re_match_fragment :: "string \<Rightarrow> string \<Rightarrow> error + bool" where
  "re_match_fragment pattern s =
     (case re_parse pattern of
        None \<Rightarrow> Inl PatternOutsideFragment
      | Some as \<Rightarrow> Inr (re_run as s))"

text \<open>
  \<^verbatim>\<open>re.sub(r".+/", "", url)\<close>: the dot does not cross a newline, so on each line the
  greedy match runs from the start of the line to its last slash, when a slash stands
  anywhere but at the start of the line; a line without such a slash is left alone.
\<close>

fun lines_of :: "string \<Rightarrow> string list" where
  "lines_of [] = [[]]"
| "lines_of (c # cs) =
     (case lines_of cs of
        [] \<Rightarrow> [[c]]
      | l # ls \<Rightarrow> if c = newline then [] # l # ls else (c # l) # ls)"

fun unlines :: "string list \<Rightarrow> string" where
  "unlines [] = []"
| "unlines [l] = l"
| "unlines (l # ls) = l @ newline # unlines ls"

definition strip_line :: "string \<Rightarrow> string" where
  "strip_line l = (if CHR ''/'' \<in> set (tl l) then basename l else l)"

definition re_sub_dirs :: "string \<Rightarrow> string" where
  "re_sub_dirs url = unlines (map strip_line (lines_of url))"

subsection \<open>The file system\<close>

text \<open>
  The file system is a tree whose directories list their entries by name. A location is
  the list of entry names that leads from the root to a node; \<open>get\<close>, \<open>put\<close> and \<open>del\<close>
  read, bind and remove the node at a location. There are no symbolic links.
\<close>

type_synonym path = "string list"

datatype node = File string | Dir "(string \<times> node) list"

fun get :: "path \<Rightarrow> node \<Rightarrow> node option" where
  "get [] t = Some t"
| "get (c # cs) (File x) = None"
| "get (c # cs) (Dir es) = (case map_of es c of None \<Rightarrow> None | Some sub \<Rightarrow> get cs sub)"

text \<open>\<open>put\<close> binds a location to a node; the parent must be a directory.\<close>

fun put :: "path \<Rightarrow> node \<Rightarrow> node \<Rightarrow> node option" where
  "put [] n t = None"
| "put (c # cs) n (File x) = None"
| "put (c # cs) n (Dir es) =
     (if cs = [] then Some (Dir (AList.update c n es))
      else case map_of es c of
             None \<Rightarrow> None
           | Some sub \<Rightarrow> map_option (\<lambda>sub'. Dir (AList.update c sub' es)) (put cs n sub))"

fun del :: "path \<Rightarrow> node \<Rightarrow> node" where
  "del [] t = t"
| "del (c # cs) (File x) = File x"
| "del (c # cs) (Dir es) =
     (if cs = [] then Dir (AList.delete c es)
      else case map_of es c of
             None \<Rightarrow> Dir es
           | Some sub \<Rightarrow> Dir (AList.update c (del cs sub) es))"

text \<open>
  A path, as a \<^verbatim>\<open>Path\<close> holds it or \<^verbatim>\<open>os.path.join\<close> builds it, is the list of its
  components and is read from the root. It reaches the operating system as it is: the
  components \<^verbatim>\<open>..\<close>, \<^verbatim>\<open>.\<close> and the empty one are not names of entries, and the
  operating system resolves the path one component at a time. Every component is entered
  from a directory that exists (\<^verbatim>\<open>ENOENT\<close> when nothing is there, \<^verbatim>\<open>ENOTDIR\<close> when a
  file is); \<^verbatim>\<open>..\<close> leads to the parent, the parent of the root being the root, \<^verbatim>\<open>.\<close> and
  the empty component stay, a name leads to the entry of that name, whether it exists or
  not.
\<close>

definition special :: "string \<Rightarrow> bool" where
  "special c = (c = '''' \<or> c = ''.'' \<or> c = ''..'')"

definition step :: "path \<Rightarrow> string \<Rightarrow> path" where
  "step cur c =
     (if c = '''' \<or> c = ''.'' then cur
      else if c = ''..'' then butlast cur
      else cur @ [c])"

definition enter :: "error + path \<Rightarrow> string \<Rightarrow> node \<Rightarrow> error + path" where
  "enter r c t =
     (case r of
        Inl e \<Rightarrow> Inl e
      | Inr cur \<Rightarrow>
          (case get cur t of
             None \<Rightarrow> Inl FileNotFoundError
           | Some (File x) \<Rightarrow> Inl NotADirectoryError
           | Some (Dir es) \<Rightarrow> Inr (step cur c)))"

text \<open>The location a path leads to, or the error of the resolution.\<close>

definition resolve :: "path \<Rightarrow> node \<Rightarrow> error + path" where
  "resolve p t = foldl (\<lambda>r c. enter r c t) (Inr []) p"

text \<open>\<^verbatim>\<open>os.stat\<close>: the node a path leads to, \<open>None\<close> when the call raises.\<close>

definition stat :: "path \<Rightarrow> node \<Rightarrow> node option" where
  "stat p t = (case resolve p t of Inl e \<Rightarrow> None | Inr q \<Rightarrow> get q t)"

definition exists :: "path \<Rightarrow> node \<Rightarrow> bool" where
  "exists p t = (stat p t \<noteq> None)"

definition isdir :: "path \<Rightarrow> node \<Rightarrow> bool" where
  "isdir p t = (case stat p t of Some (Dir es) \<Rightarrow> True | _ \<Rightarrow> False)"

definition isfile :: "path \<Rightarrow> node \<Rightarrow> bool" where
  "isfile p t = (case stat p t of Some (File x) \<Rightarrow> True | _ \<Rightarrow> False)"

definition listdir :: "path \<Rightarrow> node \<Rightarrow> error + string list" where
  "listdir p t =
     (case stat p t of
        None \<Rightarrow> Inl FileNotFoundError
      | Some (File x) \<Rightarrow> Inl NotADirectoryError
      | Some (Dir es) \<Rightarrow> Inr (map fst es))"

text \<open>
  Creating or replacing the entry a path names, and removing it. The last component
  must be a name: a path that ends in \<^verbatim>\<open>..\<close>, \<^verbatim>\<open>.\<close> or the empty component names a
  directory that is there already. \<open>None\<close> when the call raises.
\<close>

definition create :: "path \<Rightarrow> node \<Rightarrow> node \<Rightarrow> node option" where
  "create p n t =
     (if p = [] \<or> special (last p) then None
      else case resolve p t of Inl e \<Rightarrow> None | Inr q \<Rightarrow> put q n t)"

definition unlink :: "path \<Rightarrow> node \<Rightarrow> node option" where
  "unlink p t =
     (if p = [] \<or> special (last p) then None
      else case resolve p t of Inl e \<Rightarrow> None | Inr q \<Rightarrow> Some (del q t))"

text \<open>
  \<^verbatim>\<open>os.path.samefile\<close> as \<^verbatim>\<open>shutil._samefile\<close> calls it: both paths exist and lead to
  the same node.
\<close>

definition samefile :: "path \<Rightarrow> path \<Rightarrow> node \<Rightarrow> bool" where
  "samefile p q t = (exists p t \<and> exists q t \<and> resolve p t = resolve q t)"

text \<open>\<^verbatim>\<open>os.mkdir\<close>.\<close>

definition os_mkdir :: "path \<Rightarrow> node \<Rightarrow> error + node" where
  "os_mkdir p t =
     (case resolve p t of
        Inl e \<Rightarrow> Inl e
      | Inr q \<Rightarrow>
          (case get q t of
             Some n \<Rightarrow> Inl FileExistsError
           | None \<Rightarrow>
               (case put q (Dir []) t of
                  None \<Rightarrow> Inl FileNotFoundError
                | Some t' \<Rightarrow> Inr t')))"

text \<open>
  \<^verbatim>\<open>Path.mkdir(parents=True, exist_ok=True)\<close> of pathlib:
  \<^verbatim>\<open>
  try:
      os.mkdir(self, mode)
  except FileNotFoundError:
      if not parents or self.parent == self:
          raise
      self.parent.mkdir(parents=True, exist_ok=True)
      self.mkdir(mode, parents=False, exist_ok=exist_ok)
  except OSError:
      if not exist_ok or not self.is_dir():
          raise
  \<close>
  The parent of a path is the path without its last component.
\<close>

function path_mkdir :: "path \<Rightarrow> node \<Rightarrow> error + node" where
  "path_mkdir p t =
     (case os_mkdir p t of
        Inr t' \<Rightarrow> Inr t'
      | Inl e \<Rightarrow>
          if e = FileNotFoundError then
            (if p = [] then Inl e
             else case path_mkdir (butlast p) t of
                    Inl e1 \<Rightarrow> Inl e1
                  | Inr t1 \<Rightarrow>
                      (case os_mkdir p t1 of
                         Inr t2 \<Rightarrow> Inr t2
                       | Inl e2 \<Rightarrow>
                           if e2 \<noteq> FileNotFoundError \<and> isdir p t1 then Inr t1 else Inl e2))
          else if isdir p t then Inr t else Inl e)"
  by pat_completeness auto

termination
  by (relation "measure (\<lambda>(p, t). length p)") auto

declare path_mkdir.simps [simp del]

text \<open>
  Joining one name to a path with \<^verbatim>\<open>/\<close>: a \<^verbatim>\<open>Path\<close> drops the empty component and
  \<^verbatim>\<open>.\<close>, and keeps \<^verbatim>\<open>..\<close>.
\<close>

definition child :: "path \<Rightarrow> string \<Rightarrow> path" where
  "child p name = (if name = '''' \<or> name = ''.'' then p else p @ [name])"

fun split_slash :: "string \<Rightarrow> string list" where
  "split_slash [] = [[]]"
| "split_slash (c # cs) =
     (case split_slash cs of
        [] \<Rightarrow> [[c]]
      | l # ls \<Rightarrow> if c = CHR ''/'' then [] # l # ls else (c # l) # ls)"

text \<open>
  \<^verbatim>\<open>Path(os.path.join(base, s))\<close>: an absolute \<open>s\<close> discards the base, and the \<^verbatim>\<open>Path\<close>
  drops the empty components and the \<^verbatim>\<open>.\<close> components of \<open>s\<close>, and keeps \<^verbatim>\<open>..\<close>.
\<close>

definition os_path_join :: "path \<Rightarrow> string \<Rightarrow> path" where
  "os_path_join base s =
     foldl child (if take 1 s = ''/'' then [] else base) (split_slash s)"

subsection \<open>The world and its collaborators\<close>

text \<open>
  The world: the file system, the URLs requested over the network so far, the number of
  open file descriptors, and the files handed to an archive decoder so far.
\<close>

record world =
  fs :: node
  net_log :: "string list"
  open_fds :: nat
  unpack_log :: "path list"

text \<open>
  The reply of \<^verbatim>\<open>requests.get(url, stream=True)\<close>: the status code, whether the
  \<^verbatim>\<open>Content-Length\<close> header is absent or accepted by \<^verbatim>\<open>int\<close>, the chunks that
  \<^verbatim>\<open>iter_content\<close> yields, and whether the stream breaks after them.
\<close>

record response =
  status_code :: nat
  content_length_ok :: bool
  chunks :: "string list"
  stream_breaks :: bool

text \<open>How a copy to a destination ends: it may fail before or after the destination is created.\<close>

datatype fault = FailBefore | FailPartial

text \<open>
  What the module takes from outside: the HTTP client, the name \<^verbatim>\<open>tempfile\<close> picks
  next for a file and for a directory, the two archive decoders (from the bytes of an
  archive to its top-level entries, \<open>None\<close> for bytes that are no archive), the faults
  of the copies, the regular-expression engine (\<^verbatim>\<open>re.match\<close> of a pattern on a string:
  the exception it raises, or whether it matches), the scheme \<^verbatim>\<open>urlparse\<close> finds, and
  the process environment.
\<close>

record env =
  http_get :: "string \<Rightarrow> response option"
  tmp_root :: path
  tmp_file_name :: string
  tmp_dir_name :: string
  unzip :: "string \<Rightarrow> (string \<times> node) list option"
  untar_gz :: "string \<Rightarrow> (string \<times> node) list option"
  copy_fault :: "path \<Rightarrow> fault option"
  re_match :: "string \<Rightarrow> string \<Rightarrow> error + bool"
  urlparse_scheme :: "string \<Rightarrow> string"
  environ_cache_dir :: "path option"
  home :: path

subsection \<open>get_filepath\<close>

text \<open>
  \<^verbatim>\<open>
  if os.path.isdir(filepath):
      files = os.listdir(filepath)
      if len(files) == 1:
          return os.path.join(filepath, files[0])
      else:
          return filepath
  elif os.path.isfile(filepath):
      return filepath
  else:
      raise FileNotFoundError(...)
  \<close>
  The name joined to the directory is one of its own entries.
\<close>

definition get_filepath :: "path \<Rightarrow> node \<Rightarrow> error + path" where
  "get_filepath filepath t =
     (if isdir filepath t then
        (case listdir filepath t of
           Inl e \<Rightarrow> Inl e
         | Inr files \<Rightarrow>
             if length files = 1 then Inr (filepath @ [hd files]) else Inr filepath)
      else if isfile filepath t then Inr filepath
      else Inl FileNotFoundError)"

subsection \<open>get_default_cache_path\<close>

definition get_default_cache_path :: "env \<Rightarrow> node \<Rightarrow> error + path" where
  "get_default_cache_path E t =
     (case environ_cache_dir E of
        Some fastnlp_cache_dir \<Rightarrow>
          if isdir fastnlp_cache_dir t then Inr fastnlp_cache_dir else Inl NotADirectoryError
      | None \<Rightarrow> Inr (home E @ [''.fastNLP'']))"

subsection \<open>match_file\<close>

text \<open>
  \<^verbatim>\<open>
  for file_name in files:
      if re.match(dir_name + '$', file_name) or re.match(dir_name + '\\..*', file_name):
          matched_filenames.append(file_name)
  \<close>
  The second pattern is the name followed by a backslash, two dots and a star; it is
  tried only when the first finds no match.
\<close>

fun match_loop :: "env \<Rightarrow> string \<Rightarrow> string list \<Rightarrow> string list \<Rightarrow> error + string list" where
  "match_loop E dir_name [] matched_filenames = Inr matched_filenames"
| "match_loop E dir_name (file_name # files) matched_filenames =
     (case re_match E (dir_name @ ''$'') file_name of
        Inl e \<Rightarrow> Inl e
      | Inr True \<Rightarrow> match_loop E dir_name files (matched_filenames @ [file_name])
      | Inr False \<Rightarrow>
          (case re_match E (dir_name @ backslash # ''..*'') file_name of
             Inl e \<Rightarrow> Inl e
           | Inr True \<Rightarrow> match_loop E dir_name files (matched_filenames @ [file_name])
           | Inr False \<Rightarrow> match_loop E dir_name files matched_filenames))"

definition match_file :: "env \<Rightarrow> string \<Rightarrow> path \<Rightarrow> node \<Rightarrow> error + string" where
  "match_file E dir_name cache_dir t =
     (case listdir cache_dir t of
        Inl e \<Rightarrow> Inl e
      | Inr files \<Rightarrow>
          (case match_loop E dir_name files [] of
             Inl e \<Rightarrow> Inl e
           | Inr matched_filenames \<Rightarrow>
               if length matched_filenames = 0 then Inr ''''
               else if length matched_filenames = 1 then Inr (last matched_filenames)
               else Inl RuntimeError))"

subsection \<open>Library calls of the download\<close>

text \<open>
  \<^verbatim>\<open>tempfile.mkstemp\<close> and \<^verbatim>\<open>tempfile.mkdtemp\<close> create the name the environment
  supplies under the temporary root and fail when it is taken.
\<close>

definition mkstemp :: "env \<Rightarrow> world \<Rightarrow> (error + path) \<times> world" where
  "mkstemp E w =
     (let p = tmp_root E @ [tmp_file_name E]
      in if exists p (fs w) then (Inl FileExistsError, w)
         else case create p (File '''') (fs w) of
                None \<Rightarrow> (Inl FileNotFoundError, w)
              | Some t \<Rightarrow> (Inr p, w\<lparr>fs := t, open_fds := Suc (open_fds w)\<rparr>))"

definition mkdtemp :: "env \<Rightarrow> world \<Rightarrow> (error + path) \<times> world" where
  "mkdtemp E w =
     (let p = tmp_root E @ [tmp_dir_name E]
      in if exists p (fs w) then (Inl FileExistsError, w)
         else case create p (Dir []) (fs w) of
                None \<Rightarrow> (Inl FileNotFoundError, w)
              | Some t \<Rightarrow> (Inr p, w\<lparr>fs := t\<rparr>))"

text \<open>
  Lines 280 to 284: the file is opened for writing, which a directory refuses, and the
  chunks that are not empty are written to it in turn; a stream that breaks leaves what
  was written and raises.
\<close>

definition write_chunks :: "path \<Rightarrow> response \<Rightarrow> world \<Rightarrow> error option \<times> world" where
  "write_chunks temp_filename req w =
     (if isdir temp_filename (fs w) then (Some IsADirectoryError, w)
      else case create temp_filename
                  (File (concat (filter (\<lambda>chunk. chunk \<noteq> []) (chunks req)))) (fs w) of
             None \<Rightarrow> (Some FileNotFoundError, w)
           | Some t \<Rightarrow> (if stream_breaks req then Some ConnectionError else None, w\<lparr>fs := t\<rparr>))"

text \<open>
  \<^verbatim>\<open>unzip_file\<close> and \<^verbatim>\<open>untar_gz_file\<close>: the decoder reads the bytes of the file and its
  top-level entries are written into the target directory.
\<close>

fun extract_entries :: "path \<Rightarrow> (string \<times> node) list \<Rightarrow> node \<Rightarrow> node option" where
  "extract_entries to [] t = Some t"
| "extract_entries to ((name, n) # es) t =
     (case create (to @ [name]) n t of
        None \<Rightarrow> None
      | Some t' \<Rightarrow> extract_entries to es t')"

definition extract_with ::
  "(string \<Rightarrow> (string \<times> node) list option) \<Rightarrow> path \<Rightarrow> path \<Rightarrow> world \<Rightarrow> error option \<times> world" where
  "extract_with decode file to w0 =
     (let w = w0\<lparr>unpack_log := unpack_log w0 @ [file]\<rparr>
      in case stat file (fs w) of
           None \<Rightarrow> (Some FileNotFoundError, w)
         | Some (Dir es) \<Rightarrow> (Some IsADirectoryError, w)
         | Some (File bytes) \<Rightarrow>
             (case decode bytes of
                None \<Rightarrow> (Some BadArchive, w)
              | Some entries \<Rightarrow>
                  (case extract_entries to entries (fs w) of
                     None \<Rightarrow> (Some FileNotFoundError, w)
                   | Some t \<Rightarrow> (None, w\<lparr>fs := t\<rparr>))))"

definition unzip_file :: "env \<Rightarrow> path \<Rightarrow> path \<Rightarrow> world \<Rightarrow> error option \<times> world" where
  "unzip_file E file to w = extract_with (unzip E) file to w"

definition untar_gz_file :: "env \<Rightarrow> path \<Rightarrow> path \<Rightarrow> world \<Rightarrow> error option \<times> world" where
  "untar_gz_file E file to w = extract_with (untar_gz E) file to w"

text \<open>
  \<^verbatim>\<open>shutil.copyfile\<close> refuses to copy a file onto itself, reads the source and writes the
  destination; a copy that fails part way leaves a destination without content.
\<close>

definition copyfile :: "env \<Rightarrow> path \<Rightarrow> path \<Rightarrow> world \<Rightarrow> error option \<times> world" where
  "copyfile E src dst w =
     (if samefile src dst (fs w) then (Some SameFileError, w)
      else case stat src (fs w) of
             None \<Rightarrow> (Some FileNotFoundError, w)
           | Some (Dir es) \<Rightarrow> (Some IsADirectoryError, w)
           | Some (File bytes) \<Rightarrow>
               (if isdir dst (fs w) then (Some IsADirectoryError, w)
                else case copy_fault E dst of
                       Some FailBefore \<Rightarrow> (Some OSError, w)
                     | Some FailPartial \<Rightarrow>
                         (case create dst (File '''') (fs w) of
                            None \<Rightarrow> (Some FileNotFoundError, w)
                          | Some t \<Rightarrow> (Some OSError, w\<lparr>fs := t\<rparr>))
                     | None \<Rightarrow>
                         (case create dst (File bytes) (fs w) of
                            None \<Rightarrow> (Some FileNotFoundError, w)
                          | Some t \<Rightarrow> (None, w\<lparr>fs := t\<rparr>))))"

text \<open>
  \<^verbatim>\<open>shutil.copytree\<close> needs a destination that does not exist yet; a copy that fails
  part way leaves a destination directory without entries.
\<close>

definition copytree :: "env \<Rightarrow> path \<Rightarrow> path \<Rightarrow> world \<Rightarrow> error option \<times> world" where
  "copytree E src dst w =
     (case stat src (fs w) of
        None \<Rightarrow> (Some FileNotFoundError, w)
      | Some (File bytes) \<Rightarrow> (Some NotADirectoryError, w)
      | Some (Dir es) \<Rightarrow>
          (if exists dst (fs w) then (Some FileExistsError, w)
           else case copy_fault E dst of
                  Some FailBefore \<Rightarrow> (Some OSError, w)
                | Some FailPartial \<Rightarrow>
                    (case create dst (Dir []) (fs w) of
                       None \<Rightarrow> (Some FileNotFoundError, w)
                     | Some t \<Rightarrow> (Some OSError, w\<lparr>fs := t\<rparr>))
                | None \<Rightarrow>
                    (case create dst (Dir es) (fs w) of
                       None \<Rightarrow> (Some FileNotFoundError, w)
                     | Some t \<Rightarrow> (None, w\<lparr>fs := t\<rparr>))))"

definition os_remove :: "path \<Rightarrow> world \<Rightarrow> error option \<times> world" where
  "os_remove p w =
     (case stat p (fs w) of
        None \<Rightarrow> (Some FileNotFoundError, w)
      | Some (Dir es) \<Rightarrow> (Some IsADirectoryError, w)
      | Some (File bytes) \<Rightarrow>
          (case unlink p (fs w) of
             None \<Rightarrow> (Some OSError, w)
           | Some t \<Rightarrow> (None, w\<lparr>fs := t\<rparr>)))"

definition rmtree :: "path \<Rightarrow> world \<Rightarrow> error option \<times> world" where
  "rmtree p w =
     (case stat p (fs w) of
        None \<Rightarrow> (Some FileNotFoundError, w)
      | Some (File bytes) \<Rightarrow> (Some NotADirectoryError, w)
      | Some (Dir es) \<Rightarrow>
          (case unlink p (fs w) of
             None \<Rightarrow> (Some OSError, w)
           | Some t \<Rightarrow> (None, w\<lparr>fs := t\<rparr>)))"

definition os_close :: "world \<Rightarrow> error option \<times> world" where
  "os_close w = (None, w\<lparr>open_fds := open_fds w - 1\<rparr>)"

text \<open>Running the next statement unless the one before raised.\<close>

definition and_then ::
  "error option \<times> world \<Rightarrow> (world \<Rightarrow> error option \<times> world) \<Rightarrow> error option \<times> world" where
  "and_then r k = (case r of (Some e, w) \<Rightarrow> (Some e, w) | (None, w) \<Rightarrow> k w)"

subsection \<open>get_from_cache\<close>

text \<open>
  \<^verbatim>\<open>cache_path\<close> is a \<^verbatim>\<open>Path\<close> until line 307 rebinds it, for a download that is no
  archive, to the string \<^verbatim>\<open>str(cache_path) + suffix\<close>; a string has neither
  \<^verbatim>\<open>exists\<close> nor \<^verbatim>\<open>/\<close>.
\<close>

datatype pathval = PathObj path | PathStr path

fun path_of :: "pathval \<Rightarrow> path" where
  "path_of (PathObj p) = p"
| "path_of (PathStr p) = p"

text \<open>The suffix, which holds no slash, lengthens the last component.\<close>

definition append_suffix :: "path \<Rightarrow> string \<Rightarrow> path" where
  "append_suffix p suffix =
     (if suffix = '''' then p
      else case rev p of [] \<Rightarrow> [suffix] | l # r \<Rightarrow> rev r @ [l @ suffix])"

text \<open>
  Lines 313 to 317, the loop over the entries of the extraction root.
\<close>

fun copy_children ::
  "env \<Rightarrow> pathval \<Rightarrow> path \<Rightarrow> string list \<Rightarrow> world \<Rightarrow> error option \<times> world" where
  "copy_children E cache_path uncompress_temp_dir [] w = (None, w)"
| "copy_children E cache_path uncompress_temp_dir (filename # rest) w =
     (case cache_path of
        PathStr s \<Rightarrow> (Some TypeError, w)
      | PathObj p \<Rightarrow>
          (case (if isdir (uncompress_temp_dir @ [filename]) (fs w)
                 then copytree E (uncompress_temp_dir @ [filename]) (p @ [filename]) w
                 else copyfile E (uncompress_temp_dir @ [filename]) (p @ [filename]) w) of
             (Some e, w') \<Rightarrow> (Some e, w')
           | (None, w') \<Rightarrow> copy_children E cache_path uncompress_temp_dir rest w'))"

text \<open>Lines 312 to 319, the body of the \<^verbatim>\<open>try\<close>.\<close>

definition copy_to_cache ::
  "env \<Rightarrow> pathval \<Rightarrow> path \<Rightarrow> world \<Rightarrow> error option \<times> world" where
  "copy_to_cache E cache_path uncompress_temp_dir w =
     (if isdir uncompress_temp_dir (fs w) then
        (case listdir uncompress_temp_dir (fs w) of
           Inl e \<Rightarrow> (Some e, w)
         | Inr filenames \<Rightarrow> copy_children E cache_path uncompress_temp_dir filenames w)
      else copyfile E uncompress_temp_dir (path_of cache_path) w)"

text \<open>
  Lines 325 to 334, the \<^verbatim>\<open>finally\<close> block; the result is the exception it raises
  itself, if any.
\<close>

definition finally_block ::
  "pathval \<Rightarrow> bool \<Rightarrow> path option \<Rightarrow> path \<Rightarrow> world \<Rightarrow> error option \<times> world" where
  "finally_block cache_path success delete_temp_dir temp_filename w =
     and_then
       (if \<not> success then
          (case cache_path of
             PathStr s \<Rightarrow> (Some AttributeError, w)
           | PathObj p \<Rightarrow>
               if exists p (fs w) then
                 (if isfile p (fs w) then os_remove p w else rmtree p w)
               else (None, w))
        else (None, w))
       (\<lambda>w. and_then
          (case delete_temp_dir of Some d \<Rightarrow> rmtree d w | None \<Rightarrow> (None, w))
          (\<lambda>w. and_then (os_close w) (os_remove temp_filename)))"

text \<open>
  Lines 308 to 335: the \<^verbatim>\<open>try\<close>, its \<^verbatim>\<open>except\<close> that raises the exception again, the
  \<^verbatim>\<open>finally\<close>, whose own exception replaces the one in flight, and the \<^verbatim>\<open>return\<close>.
\<close>

definition install ::
  "env \<Rightarrow> pathval \<Rightarrow> path \<Rightarrow> path option \<Rightarrow> path \<Rightarrow> world \<Rightarrow> (error + path) \<times> world" where
  "install E cache_path uncompress_temp_dir delete_temp_dir temp_filename w =
     (case copy_to_cache E cache_path uncompress_temp_dir w of
        (copied, w1) \<Rightarrow>
          (case finally_block cache_path (copied = None) delete_temp_dir temp_filename w1 of
             (Some e, w2) \<Rightarrow> (Inl e, w2)
           | (None, w2) \<Rightarrow>
               (case copied of
                  Some e \<Rightarrow> (Inl e, w2)
                | None \<Rightarrow> (get_filepath (path_of cache_path) (fs w2), w2))))"

text \<open>
  Lines 298 to 301: an extraction directory whose only entry is a directory gives way
  to that entry.
\<close>

definition single_dir_root :: "path \<Rightarrow> string list \<Rightarrow> node \<Rightarrow> path" where
  "single_dir_root uncompress_temp_dir filenames t =
     (if length filenames = 1 then
        (if isdir (uncompress_temp_dir @ [hd filenames]) t
         then uncompress_temp_dir @ [hd filenames]
         else uncompress_temp_dir)
      else uncompress_temp_dir)"

text \<open>
  Lines 289 to 307. The result is the value of \<^verbatim>\<open>cache_path\<close>, of
  \<^verbatim>\<open>uncompress_temp_dir\<close> and of \<^verbatim>\<open>delete_temp_dir\<close> when the \<^verbatim>\<open>try\<close> begins.
\<close>

definition uncompress ::
  "env \<Rightarrow> string \<Rightarrow> path \<Rightarrow> path \<Rightarrow> world \<Rightarrow> (error + pathval \<times> path \<times> path option) \<times> world" where
  "uncompress E suffix temp_filename cache_path w =
     (if suffix = ''.zip'' \<or> suffix = ''.tar.gz'' then
        (case mkdtemp E w of
           (Inl e, w1) \<Rightarrow> (Inl e, w1)
         | (Inr uncompress_temp_dir, w1) \<Rightarrow>
             (case (if suffix = ''.zip''
                    then unzip_file E temp_filename uncompress_temp_dir w1
                    else untar_gz_file E temp_filename uncompress_temp_dir w1) of
                (Some e, w2) \<Rightarrow> (Inl e, w2)
              | (None, w2) \<Rightarrow>
                  (case listdir uncompress_temp_dir (fs w2) of
                     Inl e \<Rightarrow> (Inl e, w2)
                   | Inr filenames \<Rightarrow>
                       (case path_mkdir cache_path (fs w2) of
                          Inl e \<Rightarrow> (Inl e, w2)
                        | Inr t \<Rightarrow>
                            (Inr (PathObj cache_path,
                                  single_dir_root uncompress_temp_dir filenames (fs w2),
                                  Some uncompress_temp_dir),
                             w2\<lparr>fs := t\<rparr>)))))
      else (Inr (PathStr (append_suffix cache_path suffix), temp_filename, None), w))"

text \<open>
  Lines 268 to 337, entered when the cache has no entry. The request is logged when it
  is sent, whatever comes back.
\<close>

definition download ::
  "env \<Rightarrow> string \<Rightarrow> string \<Rightarrow> path \<Rightarrow> world \<Rightarrow> (error + path) \<times> world" where
  "download E url suffix cache_path w =
     (case mkstemp E w of
        (Inl e, w1) \<Rightarrow> (Inl e, w1)
      | (Inr temp_filename, w1) \<Rightarrow>
          (let w2 = w1\<lparr>net_log := net_log w1 @ [url]\<rparr>
           in case http_get E url of
                None \<Rightarrow> (Inl ConnectionError, w2)
              | Some req \<Rightarrow>
                  if status_code req = 200 then
                    (if \<not> content_length_ok req then (Inl ValueError, w2)
                     else case write_chunks temp_filename req w2 of
                            (Some e, w3) \<Rightarrow> (Inl e, w3)
                          | (None, w3) \<Rightarrow>
                              (case uncompress E suffix temp_filename cache_path w3 of
                                 (Inl e, w4) \<Rightarrow> (Inl e, w4)
                               | (Inr (cache_path', uncompress_temp_dir, delete_temp_dir), w4) \<Rightarrow>
                                   install E cache_path' uncompress_temp_dir delete_temp_dir
                                     temp_filename w4))
                  else (Inl HTTPError, w2)))"

text \<open>
  Lines 243 to 256, then the download. The test of line 268 repeats the test of line
  255 on the same file system.
\<close>

definition get_from_cache :: "env \<Rightarrow> string \<Rightarrow> path \<Rightarrow> world \<Rightarrow> (error + path) \<times> world" where
  "get_from_cache E url cache_dir w =
     (case path_mkdir cache_dir (fs w) of
        Inl e \<Rightarrow> (Inl e, w)
      | Inr t \<Rightarrow>
          (let w1 = w\<lparr>fs := t\<rparr>;
               filename = re_sub_dirs url;
               dir_name = fst (split_filename_suffix filename);
               suffix = snd (split_filename_suffix filename)
           in case match_file E dir_name cache_dir (fs w1) of
                Inl e \<Rightarrow> (Inl e, w1)
              | Inr match_dir_name \<Rightarrow>
                  (let dir_name' = (if match_dir_name \<noteq> '''' then match_dir_name else dir_name);
                       cache_path = child cache_dir dir_name'
                   in if exists cache_path (fs w1)
                      then (get_filepath cache_path (fs w1), w1)
                      else download E url suffix cache_path w1)))"

subsection \<open>cached_path\<close>

text \<open>
  The scheme that \<^verbatim>\<open>urllib.parse.urlparse\<close> of CPython (3.11.4 and later) finds. The
  leading characters up to the space (the C0 controls and the space) are stripped, and
  every tab, carriage return and line feed is removed. The scheme is then the text
  before the first colon, in lower case, when it starts with an ASCII letter and holds
  only letters, digits, \<^verbatim>\<open>+\<close>, \<^verbatim>\<open>-\<close> and \<^verbatim>\<open>.\<close>; the empty string otherwise.
\<close>

definition ascii_alpha :: "char \<Rightarrow> bool" where
  "ascii_alpha c = (let n = of_char c :: nat in (65 \<le> n \<and> n \<le> 90) \<or> (97 \<le> n \<and> n \<le> 122))"

definition scheme_char :: "char \<Rightarrow> bool" where
  "scheme_char c =
     (let n = of_char c :: nat
      in ascii_alpha c \<or> (48 \<le> n \<and> n \<le> 57) \<or> c \<in> set ''+-.'')"

definition to_lower :: "char \<Rightarrow> char" where
  "to_lower c =
     (let n = of_char c :: nat in if 65 \<le> n \<and> n \<le> 90 then char_of (n + 32) else c)"

definition c0_control_or_space :: "char \<Rightarrow> bool" where
  "c0_control_or_space c = ((of_char c :: nat) \<le> 32)"

definition unsafe_url_byte :: "char \<Rightarrow> bool" where
  "unsafe_url_byte c = (c = CHR 0x09 \<or> c = CHR 0x0D \<or> c = CHR 0x0A)"

definition url_scheme :: "string \<Rightarrow> string" where
  "url_scheme url0 =
     (let url = filter (\<lambda>c. \<not> unsafe_url_byte c) (dropWhile c0_control_or_space url0);
          pre = takeWhile (\<lambda>c. c \<noteq> CHR '':'') url
      in if CHR '':'' \<in> set url \<and> pre \<noteq> [] \<and> ascii_alpha (hd pre) \<and> list_all scheme_char pre
         then map to_lower pre
         else '''')"

text \<open>
  \<^verbatim>\<open>cached_path(url_or_filename, cache_dir=None, name=None)\<close>. Lines 95 to 101 choose the
  directory: the default when no \<^verbatim>\<open>cache_dir\<close> is given, and below it the \<^verbatim>\<open>name\<close>
  when \<^verbatim>\<open>if name:\<close> holds, that is for a name neither \<^verbatim>\<open>None\<close> nor empty. Line 108
  asks the operating system whether the joined path exists and line 110 returns the
  joined path.
\<close>

definition data_cache_dir :: "env \<Rightarrow> path option \<Rightarrow> string option \<Rightarrow> node \<Rightarrow> error + path" where
  "data_cache_dir E cache_dir name t =
     (case (case cache_dir of
              None \<Rightarrow> get_default_cache_path E t
            | Some d \<Rightarrow> Inr d) of
        Inl e \<Rightarrow> Inl e
      | Inr data_cache \<Rightarrow>
          (case name of
             None \<Rightarrow> Inr data_cache
           | Some n \<Rightarrow> if n \<noteq> '''' then Inr (os_path_join data_cache n) else Inr data_cache))"

definition cached_path ::
  "env \<Rightarrow> string \<Rightarrow> path option \<Rightarrow> string option \<Rightarrow> world \<Rightarrow> (error + path) \<times> world" where
  "cached_path E url_or_filename cache_dir name w =
     (case data_cache_dir E cache_dir name (fs w) of
        Inl e \<Rightarrow> (Inl e, w)
      | Inr data_cache \<Rightarrow>
          (let scheme = urlparse_scheme E url_or_filename
           in if scheme = ''http'' \<or> scheme = ''https''
              then get_from_cache E url_or_filename data_cache w
              else if scheme = '''' \<and> exists (os_path_join data_cache url_or_filename) (fs w)
              then (Inr (os_path_join data_cache url_or_filename), w)
              else if scheme = '''' then (Inl FileNotFoundError, w)
              else (Inl ValueError, w)))"

subsection \<open>Example worlds\<close>

text \<open>
  A file system with an empty temporary directory and no cache yet, and collaborators
  that answer every request with the six bytes \<^verbatim>\<open>abcdef\<close> in two chunks around an
  empty one, decode every zip archive to a folder \<^verbatim>\<open>demo\<close> holding two files, and copy
  without faults.
\<close>

definition reply_ok :: "string \<Rightarrow> response option" where
  "reply_ok url =
     Some \<lparr>status_code = 200, content_length_ok = True,
           chunks = [''abc'', '''', ''def''], stream_breaks = False\<rparr>"

definition reply_404 :: "string \<Rightarrow> response option" where
  "reply_404 url =
     Some \<lparr>status_code = 404, content_length_ok = True, chunks = [], stream_breaks = False\<rparr>"

definition demo_archive :: "string \<Rightarrow> (string \<times> node) list option" where
  "demo_archive bytes = Some [(''demo'', Dir [(''a.txt'', File ''1''), (''b.txt'', File ''2'')])]"

definition nested_archive :: "string \<Rightarrow> (string \<times> node) list option" where
  "nested_archive bytes = Some [(''outer'', Dir [(''inner'', Dir [(''a.txt'', File ''1'')])])]"

definition no_archive :: "string \<Rightarrow> (string \<times> node) list option" where
  "no_archive bytes = None"

definition no_fault :: "path \<Rightarrow> fault option" where
  "no_fault dst = None"

definition disk_full :: "path \<Rightarrow> fault option" where
  "disk_full dst = Some FailPartial"

definition env0 :: env where
  "env0 = \<lparr>http_get = reply_ok, tmp_root = [''tmp''], tmp_file_name = ''tmpf'',
           tmp_dir_name = ''tmpd'', unzip = demo_archive, untar_gz = no_archive,
           copy_fault = no_fault, re_match = re_match_fragment,
           urlparse_scheme = url_scheme,
           environ_cache_dir = None, home = [''home'']\<rparr>"

definition world0 :: world where
  "world0 = \<lparr>fs = Dir [(''tmp'', Dir [])], net_log = [], open_fds = 0, unpack_log = []\<rparr>"

text \<open>A cache \<^verbatim>\<open>c\<close> whose directory \<^verbatim>\<open>d\<close> holds the single file \<^verbatim>\<open>f\<close>.\<close>

definition world_one_child :: world where
  "world_one_child =
     \<lparr>fs = Dir [(''c'', Dir [(''d'', Dir [(''f'', File ''x'')])])],
      net_log = [], open_fds = 0, unpack_log = []\<rparr>"

text \<open>The same collaborators with a server that answers 404, with a zip decoder that
  rejects the bytes, and with a disk that fills up during every copy.\<close>

definition env_404 :: env where
  "env_404 = env0\<lparr>http_get := reply_404\<rparr>"

definition env_bad_zip :: env where
  "env_bad_zip = env0\<lparr>unzip := no_archive\<rparr>"

definition env_disk_full :: env where
  "env_disk_full = env0\<lparr>copy_fault := disk_full\<rparr>"

definition env_nested :: env where
  "env_nested = env0\<lparr>unzip := nested_archive\<rparr>"


text \<open>
  Zip decoders that yield one file at the top level, a file beside a directory, and no
  entry at all.
\<close>

definition sole_file_archive :: "string \<Rightarrow> (string \<times> node) list option" where
  "sole_file_archive bytes = Some [(''readme.txt'', File ''hi'')]"

definition two_entry_archive :: "string \<Rightarrow> (string \<times> node) list option" where
  "two_entry_archive bytes = Some [(''a.txt'', File ''1''), (''sub'', Dir [(''b.txt'', File ''2'')])]"

definition empty_archive :: "string \<Rightarrow> (string \<times> node) list option" where
  "empty_archive bytes = Some []"

definition env_sole_file :: env where
  "env_sole_file = env0\<lparr>unzip := sole_file_archive\<rparr>"

definition env_two_entries :: env where
  "env_two_entries = env0\<lparr>unzip := two_entry_archive\<rparr>"

definition env_empty_archive :: env where
  "env_empty_archive = env0\<lparr>unzip := empty_archive\<rparr>"

text \<open>A world whose cache directory holds the file \<^verbatim>\<open>other\<close> already.\<close>

definition world_cached :: world where
  "world_cached =
     \<lparr>fs = Dir [(''tmp'', Dir []), (''cache'', Dir [(''other'', File ''x'')])],
      net_log = [], open_fds = 0, unpack_log = []\<rparr>"

text \<open>
  A matcher that also answers for the two patterns \<^verbatim>\<open>match_file\<close> builds from the name
  \<^verbatim>\<open>a+b\<close>, on the string \<^verbatim>\<open>other\<close>: \<^verbatim>\<open>re.match\<close> finds no match there.
\<close>

definition re_match_plus :: "string \<Rightarrow> string \<Rightarrow> error + bool" where
  "re_match_plus pattern s =
     (if (pattern = ''a+b$'' \<or> pattern = ''a+b'' @ backslash # ''..*'') \<and> s = ''other''
      then Inr False
      else re_match_fragment pattern s)"

definition env_plus :: env where
  "env_plus = env0\<lparr>re_match := re_match_plus\<rparr>"

subsection \<open>Notions used in the proofs\<close>

text \<open>
  The location a path leads to when its resolution succeeds, and a file system that
  keeps every directory of another.
\<close>

definition loc :: "path \<Rightarrow> path" where
  "loc p = foldl step [] p"

definition dirs_kept :: "node \<Rightarrow> node \<Rightarrow> bool" where
  "dirs_kept t t' = (\<forall>l es. get l t = Some (Dir es) \<longrightarrow> (\<exists>es'. get l t' = Some (Dir es')))"

section \<open>Properties\<close>

subsection \<open>File names and suffixes\<close>

lemma takeWhile_rev_tail:
  "c \<notin> set s \<Longrightarrow> takeWhile (\<lambda>x. x \<noteq> c) (rev s @ c # t) = rev s"
  by (induction s rule: rev_induct) auto

lemma takeWhile_rev_all:
  "c \<notin> set s \<Longrightarrow> takeWhile (\<lambda>x. x \<noteq> c) (rev s) = rev s"
  by (induction s rule: rev_induct) auto

lemma basename_append_slash:
  "CHR ''/'' \<notin> set s \<Longrightarrow> basename (d @ CHR ''/'' # s) = s"
  by (simp add: basename_def takeWhile_rev_tail)

lemma basename_no_slash: "CHR ''/'' \<notin> set s \<Longrightarrow> basename s = s"
  by (simp add: basename_def takeWhile_rev_all)

lemma endswith_append: "endswith (s @ suf) suf"
  by (simp add: endswith_def)

lemma splitext_last_dot:
  assumes "CHR ''/'' \<notin> set s" "CHR ''/'' \<notin> set e" "CHR ''.'' \<notin> set e"
    and "list_ex (\<lambda>c. c \<noteq> CHR ''.'') s"
  shows "splitext (s @ CHR ''.'' # e) = (s, CHR ''.'' # e)"
proof -
  have b: "basename (s @ CHR ''.'' # e) = s @ CHR ''.'' # e"
    using assms by (intro basename_no_slash) auto
  show ?thesis
    using assms(3,4) by (simp add: splitext_def b takeWhile_rev_tail Let_def)
qed

text \<open>
  Claim C8. \<open>split_filename_suffix\<close> looks for the two-part suffix \<^verbatim>\<open>.tar.gz\<close> first
  and otherwise splits at the last dot of the trailing path segment:
  \<^verbatim>\<open>archive.tar.gz\<close> gives \<^verbatim>\<open>archive\<close> and \<^verbatim>\<open>.tar.gz\<close>, \<^verbatim>\<open>data.json\<close> gives
  \<^verbatim>\<open>data\<close> and \<^verbatim>\<open>.json\<close>; in general a segment \<open>s.tar.gz\<close> gives \<open>s\<close>, and a
  segment \<open>s.e\<close> whose \<open>e\<close> has no dot, whose \<open>s\<close> is not made of dots only and which
  does not end in \<^verbatim>\<open>.tar.gz\<close> gives \<open>s\<close> and \<open>.e\<close>.
\<close>

theorem split_filename_suffix_tar_gz_first:
  "split_filename_suffix ''archive.tar.gz'' = (''archive'', ''.tar.gz'') \<and>
   split_filename_suffix ''data.json'' = (''data'', ''.json'') \<and>
   (\<forall>d s. CHR ''/'' \<notin> set s \<longrightarrow>
      split_filename_suffix (d @ ''/'' @ s @ ''.tar.gz'') = (s, ''.tar.gz'')) \<and>
   (\<forall>d s e. CHR ''/'' \<notin> set s \<and> CHR ''/'' \<notin> set e \<and> CHR ''.'' \<notin> set e \<and>
      list_ex (\<lambda>c. c \<noteq> CHR ''.'') s \<and> \<not> endswith (s @ ''.'' @ e) ''.tar.gz'' \<longrightarrow>
      split_filename_suffix (d @ ''/'' @ s @ ''.'' @ e) = (s, ''.'' @ e))"
proof (intro conjI allI impI)
  show "split_filename_suffix ''archive.tar.gz'' = (''archive'', ''.tar.gz'')"
    by (simp add: split_filename_suffix_def basename_def endswith_def)
  show "split_filename_suffix ''data.json'' = (''data'', ''.json'')"
    by (simp add: split_filename_suffix_def basename_def endswith_def splitext_def)
next
  fix d s :: string
  assume s: "CHR ''/'' \<notin> set s"
  have "basename (d @ ''/'' @ s @ ''.tar.gz'') = s @ ''.tar.gz''"
    using basename_append_slash[of "s @ ''.tar.gz''" d] s by simp
  then show "split_filename_suffix (d @ ''/'' @ s @ ''.tar.gz'') = (s, ''.tar.gz'')"
    using endswith_append[of s "''.tar.gz''"] by (simp add: split_filename_suffix_def)
next
  fix d s e :: string
  assume h: "CHR ''/'' \<notin> set s \<and> CHR ''/'' \<notin> set e \<and> CHR ''.'' \<notin> set e \<and>
      list_ex (\<lambda>c. c \<noteq> CHR ''.'') s \<and> \<not> endswith (s @ ''.'' @ e) ''.tar.gz''"
  have "basename (d @ ''/'' @ s @ ''.'' @ e) = s @ ''.'' @ e"
    using basename_append_slash[of "s @ ''.'' @ e" d] h by simp
  then show "split_filename_suffix (d @ ''/'' @ s @ ''.'' @ e) = (s, ''.'' @ e)"
    using h splitext_last_dot[of s e] by (simp add: split_filename_suffix_def)
qed

theorem split_filename_suffix_tar_gz_first_witness:
  "split_filename_suffix ''http://h/models/elmo_en_Medium.tar.gz'' = (''elmo_en_Medium'', ''.tar.gz'') \<and>
   split_filename_suffix ''http://h/glove.6B.50d.zip'' = (''glove.6B.50d'', ''.zip'')"
proof -
  have a: "CHR ''/'' \<notin> set ''elmo_en_Medium''" by simp
  have b: "CHR ''/'' \<notin> set ''glove.6B.50d'' \<and> CHR ''/'' \<notin> set ''zip'' \<and> CHR ''.'' \<notin> set ''zip'' \<and>
      list_ex (\<lambda>c. c \<noteq> CHR ''.'') ''glove.6B.50d'' \<and> \<not> endswith (''glove.6B.50d'' @ ''.'' @ ''zip'') ''.tar.gz''"
    by (simp add: endswith_def)
  from split_filename_suffix_tar_gz_first
  have 1: "split_filename_suffix (''http://h/models'' @ ''/'' @ ''elmo_en_Medium'' @ ''.tar.gz'') = (''elmo_en_Medium'', ''.tar.gz'')"
    using a by blast
  from split_filename_suffix_tar_gz_first
  have 2: "split_filename_suffix (''http://h'' @ ''/'' @ ''glove.6B.50d'' @ ''.'' @ ''zip'') = (''glove.6B.50d'', ''.'' @ ''zip'')"
    using b by blast
  from 1 2 show ?thesis by simp
qed

subsection \<open>get_filepath\<close>

text \<open>
  Claim C10. \<open>get_filepath\<close> of an existing directory without children is the directory
  itself, as for every child count other than one; of a path that is neither an
  existing file nor an existing directory it raises \<open>FileNotFoundError\<close>.
\<close>

theorem get_filepath_empty_dir_and_missing:
  "(isdir p t \<and> listdir p t = Inr files \<and> length files \<noteq> 1 \<longrightarrow> get_filepath p t = Inr p) \<and>
   (stat p t = Some (Dir []) \<longrightarrow> get_filepath p t = Inr p) \<and>
   (\<not> isdir p t \<and> \<not> isfile p t \<longrightarrow> get_filepath p t = Inl FileNotFoundError)"
  by (auto simp: get_filepath_def isdir_def listdir_def)

theorem get_filepath_empty_dir_and_missing_witness:
  "get_filepath [''c'', ''d''] (Dir [(''c'', Dir [(''d'', Dir [])])]) = Inr [''c'', ''d''] \<and>
   get_filepath [''c'', ''e''] (Dir [(''c'', Dir [(''d'', Dir [])])]) = Inl FileNotFoundError \<and>
   get_filepath [''c''] (Dir [(''c'', Dir [(''d'', Dir []), (''e'', File ''x'')])]) = Inr [''c'']"
proof -
  let ?t = "Dir [(''c'', Dir [(''d'', Dir [])])]"
  let ?u = "Dir [(''c'', Dir [(''d'', Dir []), (''e'', File ''x'')])]"
  have 1: "stat [''c'', ''d''] ?t = Some (Dir [])"
    by (simp add: stat_def resolve_def enter_def step_def)
  have 2: "\<not> isdir [''c'', ''e''] ?t \<and> \<not> isfile [''c'', ''e''] ?t"
    by (simp add: isdir_def isfile_def stat_def resolve_def enter_def step_def)
  have 3: "isdir [''c''] ?u \<and> listdir [''c''] ?u = Inr [''d'', ''e''] \<and> length [''d'', ''e''] \<noteq> 1"
    by (simp add: isdir_def listdir_def stat_def resolve_def enter_def step_def)
  show ?thesis
    using get_filepath_empty_dir_and_missing[of "[''c'', ''d'']" ?t "[]"]
      get_filepath_empty_dir_and_missing[of "[''c'', ''e'']" ?t "[]"]
      get_filepath_empty_dir_and_missing[of "[''c'']" ?u "[''d'', ''e'']"] 1 2 3
    by blast
qed

subsection \<open>match_file\<close>

text \<open>
  The three listings of the specification: \<^verbatim>\<open>foo.txt\<close> is no match for \<^verbatim>\<open>food\<close>,
  \<^verbatim>\<open>foo.zip\<close> is the one match for \<^verbatim>\<open>foo\<close>, and two matches raise.
\<close>

lemma match_file_examples:
  "match_file env0 ''food'' [''cache''] (Dir [(''cache'', Dir [(''foo.txt'', File '''')])]) = Inr '''' \<and>
   match_file env0 ''foo'' [''cache''] (Dir [(''cache'', Dir [(''foo.zip'', File '''')])]) = Inr ''foo.zip'' \<and>
   match_file env0 ''foo'' [''cache'']
     (Dir [(''cache'', Dir [(''foo.zip'', File ''''), (''foo.tar.gz'', File '''')])]) = Inl RuntimeError"
  by (simp add: match_file_def listdir_def stat_def resolve_def enter_def step_def env0_def
      re_match_fragment_def backslash_def newline_def re_unmodelled_def re_quantifier_def alnum_def)

text \<open>
  Claim C3 says that \<open>match_file\<close> selects the entries equal to the base name or to the
  base name, a dot and a suffix, and never matches a pattern. The code hands the base
  name to \<^verbatim>\<open>re.match\<close> unescaped: for the base name \<^verbatim>\<open>a.b\<close> it returns the entry
  \<^verbatim>\<open>aXb\<close>; for \<^verbatim>\<open>glove.6B.50d\<close>, the base name of an archive of the module's own
  table, and a cache holding \<^verbatim>\<open>glove.6B.50d\<close> and \<^verbatim>\<open>glove-6B-50d\<close> it raises instead of
  returning the one entry of that name; and for \<^verbatim>\<open>foo\<close> it returns an entry \<^verbatim>\<open>foo\<close>
  followed by a newline.
\<close>

theorem match_file_name_is_a_pattern:
  "match_file env0 ''a.b'' [''cache''] (Dir [(''cache'', Dir [(''aXb'', File '''')])]) = Inr ''aXb'' \<and>
   match_file env0 ''glove.6B.50d'' [''cache'']
     (Dir [(''cache'', Dir [(''glove.6B.50d'', Dir []), (''glove-6B-50d'', Dir [])])]) = Inl RuntimeError \<and>
   match_file env0 ''foo'' [''cache''] (Dir [(''cache'', Dir [(''foo'' @ [newline], File '''')])])
     = Inr (''foo'' @ [newline])"
  by (simp add: match_file_def listdir_def stat_def resolve_def enter_def step_def env0_def
      re_match_fragment_def backslash_def newline_def re_unmodelled_def re_quantifier_def alnum_def)

subsection \<open>cached_path\<close>

text \<open>
  Claim C5 as stated: \<open>cached_path\<close> resolves an existing directory with exactly one
  child to that child. It does not: for a directory \<^verbatim>\<open>c/d\<close> whose only entry is the
  file \<^verbatim>\<open>f\<close> it returns \<^verbatim>\<open>c/d\<close>, where \<open>get_filepath\<close> gives \<^verbatim>\<open>c/d/f\<close>.
\<close>

theorem cached_path_no_unwrapping_counterexample:
  "fst (cached_path env0 ''d'' (Some [''c'']) None world_one_child) = Inr [''c'', ''d''] \<and>
   get_filepath [''c'', ''d''] (fs world_one_child) = Inr [''c'', ''d'', ''f'']"
  by (simp add: cached_path_def data_cache_dir_def env0_def url_scheme_def os_path_join_def
      child_def exists_def get_filepath_def isdir_def listdir_def stat_def resolve_def enter_def
      step_def world_one_child_def c0_control_or_space_def unsafe_url_byte_def)

text \<open>
  Claim C5 as amended: for an identifier with empty scheme whose path joined under the
  effective base directory exists, \<open>cached_path\<close> returns that joined path as it is,
  file or directory, whatever the directory holds, and leaves the world alone. The
  joined path is the one the operating system was asked about: its \<^verbatim>\<open>..\<close> components
  are still in it.
\<close>

theorem cached_path_returns_joined_path:
  "data_cache_dir E cache_dir name (fs w) = Inr data_cache \<Longrightarrow>
   urlparse_scheme E url_or_filename = '''' \<Longrightarrow>
   exists (os_path_join data_cache url_or_filename) (fs w) \<Longrightarrow>
   cached_path E url_or_filename cache_dir name w = (Inr (os_path_join data_cache url_or_filename), w)"
  by (simp add: cached_path_def)

theorem cached_path_returns_joined_path_witness:
  "cached_path env0 ''d'' (Some [''c'']) (Some '''') world_one_child
     = (Inr [''c'', ''d''], world_one_child) \<and>
   cached_path env0 ''d/../d/f'' (Some [''c'']) None world_one_child
     = (Inr [''c'', ''d'', ''..'', ''d'', ''f''], world_one_child)"
proof -
  have 1: "data_cache_dir env0 (Some [''c'']) (Some '''') (fs world_one_child) = Inr [''c'']"
    and x1: "data_cache_dir env0 (Some [''c'']) None (fs world_one_child) = Inr [''c'']"
    by (simp_all add: data_cache_dir_def)
  have 2: "urlparse_scheme env0 ''d'' = ''''" and x2: "urlparse_scheme env0 ''d/../d/f'' = ''''"
    by (simp_all add: env0_def url_scheme_def c0_control_or_space_def unsafe_url_byte_def)
  have 3: "os_path_join [''c''] ''d'' = [''c'', ''d'']"
    and x3: "os_path_join [''c''] ''d/../d/f'' = [''c'', ''d'', ''..'', ''d'', ''f'']"
    by (simp_all add: os_path_join_def child_def)
  have 4: "exists (os_path_join [''c''] ''d'') (fs world_one_child)"
    by (simp add: 3 exists_def stat_def resolve_def enter_def step_def world_one_child_def)
  have x4: "exists (os_path_join [''c''] ''d/../d/f'') (fs world_one_child)"
    by (simp add: x3 exists_def stat_def resolve_def enter_def step_def world_one_child_def)
  show ?thesis
    using cached_path_returns_joined_path[OF 1 2 4] cached_path_returns_joined_path[OF x1 x2 x4]
      3 x3 by simp
qed

text \<open>
  A joined path that leads through a missing directory or through a file does not
  exist, whatever follows the \<^verbatim>\<open>..\<close>: \<open>cached_path\<close> raises \<open>FileNotFoundError\<close> for
  \<^verbatim>\<open>x/../d\<close> and for \<^verbatim>\<open>d/f/../f\<close>, though \<^verbatim>\<open>c/d\<close> and \<^verbatim>\<open>c/d/f\<close> exist.
\<close>

lemma cached_path_through_missing_directory:
  "cached_path env0 ''x/../d'' (Some [''c'']) None world_one_child
     = (Inl FileNotFoundError, world_one_child) \<and>
   cached_path env0 ''d/f/../f'' (Some [''c'']) None world_one_child
     = (Inl FileNotFoundError, world_one_child)"
  by (simp add: cached_path_def data_cache_dir_def env0_def url_scheme_def os_path_join_def
      child_def exists_def stat_def resolve_def enter_def step_def world_one_child_def
      c0_control_or_space_def unsafe_url_byte_def)

subsection \<open>Runs of get_from_cache in the example worlds\<close>

lemmas run_defs = get_from_cache_def download_def uncompress_def install_def finally_block_def
  copy_to_cache_def copyfile_def copytree_def os_remove_def rmtree_def os_close_def and_then_def
  mkstemp_def mkdtemp_def write_chunks_def unzip_file_def untar_gz_file_def extract_with_def
  single_dir_root_def append_suffix_def get_filepath_def match_file_def listdir_def isdir_def
  isfile_def exists_def stat_def resolve_def enter_def step_def special_def create_def unlink_def
  samefile_def os_mkdir_def path_mkdir.simps child_def re_sub_dirs_def strip_line_def split_filename_suffix_def
  splitext_def basename_def endswith_def re_match_fragment_def backslash_def newline_def
  re_unmodelled_def re_quantifier_def alnum_def
  env0_def world0_def reply_ok_def reply_404_def demo_archive_def nested_archive_def
  no_archive_def no_fault_def disk_full_def env_404_def env_bad_zip_def env_disk_full_def
  env_nested_def sole_file_archive_def two_entry_archive_def empty_archive_def env_sole_file_def
  env_two_entries_def env_empty_archive_def world_cached_def re_match_plus_def env_plus_def Let_def

text \<open>
  The end-to-end example of the specification: \<^verbatim>\<open>demo.zip\<close> wraps two files in a folder
  \<^verbatim>\<open>demo\<close>; the cache receives \<^verbatim>\<open>demo\<close> holding the two files, and the scratch file
  and directory are gone.
\<close>

lemma get_from_cache_demo_zip:
  "get_from_cache env0 ''http://host/models/demo.zip'' [''cache''] world0 =
     (Inr [''cache'', ''demo''],
      \<lparr>fs = Dir [(''tmp'', Dir []),
                 (''cache'', Dir [(''demo'', Dir [(''a.txt'', File ''1''), (''b.txt'', File ''2'')])])],
       net_log = [''http://host/models/demo.zip''], open_fds = 0,
       unpack_log = [[''tmp'', ''tmpf'']]\<rparr>)"
  by (simp add: run_defs)

text \<open>
  Claim C1 says that on every way out of a fetch that reached the download the scratch
  file and the scratch directory are gone. The code removes them only in the
  \<^verbatim>\<open>finally\<close> of the installation: after a reply 404 the scratch file is still there,
  and after a failed extraction so are the scratch file and the scratch directory.
\<close>

theorem get_from_cache_leaks_scratch:
  "fst (get_from_cache env_404 ''http://host/models/demo.zip'' [''cache''] world0) = Inl HTTPError \<and>
   exists [''tmp'', ''tmpf'']
     (fs (snd (get_from_cache env_404 ''http://host/models/demo.zip'' [''cache''] world0))) \<and>
   fst (get_from_cache env_bad_zip ''http://host/models/demo.zip'' [''cache''] world0) = Inl BadArchive \<and>
   exists [''tmp'', ''tmpf'']
     (fs (snd (get_from_cache env_bad_zip ''http://host/models/demo.zip'' [''cache''] world0))) \<and>
   exists [''tmp'', ''tmpd'']
     (fs (snd (get_from_cache env_bad_zip ''http://host/models/demo.zip'' [''cache''] world0)))"
  by (simp add: run_defs)

text \<open>
  Claim C2 says that after a failed installation the destination is gone and the
  original exception reaches the caller. For a download that is no archive the
  \<^verbatim>\<open>finally\<close> calls \<^verbatim>\<open>exists\<close> on a string: with a disk that fills up while
  \<^verbatim>\<open>data.json\<close> is copied, the caller gets \<open>AttributeError\<close> instead of the
  \<open>OSError\<close> of the copy, the half-written \<^verbatim>\<open>data.json\<close> stays in the cache, and the
  scratch file stays too.
\<close>

theorem get_from_cache_install_failure_not_rolled_back:
  "get_from_cache env_disk_full ''http://host/models/data.json'' [''cache''] world0 =
     (Inl AttributeError,
      \<lparr>fs = Dir [(''tmp'', Dir [(''tmpf'', File ''abcdef'')]),
                 (''cache'', Dir [(''data.json'', File '''')])],
       net_log = [''http://host/models/data.json''], open_fds = 1, unpack_log = []\<rparr>)"
  by (simp add: run_defs)

text \<open>
  For an archive the same fault is rolled back: the destination and the scratch area
  are removed and the \<open>OSError\<close> of the copy is raised.
\<close>

lemma get_from_cache_archive_install_failure:
  "get_from_cache env_disk_full ''http://host/models/demo.zip'' [''cache''] world0 =
     (Inl OSError,
      \<lparr>fs = Dir [(''tmp'', Dir []), (''cache'', Dir [])],
       net_log = [''http://host/models/demo.zip''], open_fds = 0,
       unpack_log = [[''tmp'', ''tmpf'']]\<rparr>)"
  by (simp add: run_defs)

text \<open>
  Claim C4 says that the second of two fetches of one identifier uses no network. The
  lookup treats the base name as a pattern: for \<^verbatim>\<open>a$b.txt\<close> the first fetch installs
  \<^verbatim>\<open>a$b.txt\<close>, the pattern \<^verbatim>\<open>a$b\<close> of the second fetch matches no entry, and the
  second fetch sends the request again.
\<close>

theorem get_from_cache_second_fetch_downloads_again:
  "get_from_cache env0 ''http://host/a$b.txt'' [''cache''] world0 =
     (Inr [''cache'', ''a$b.txt''],
      \<lparr>fs = Dir [(''tmp'', Dir []), (''cache'', Dir [(''a$b.txt'', File ''abcdef'')])],
       net_log = [''http://host/a$b.txt''], open_fds = 0, unpack_log = []\<rparr>) \<and>
   get_from_cache env0 ''http://host/a$b.txt'' [''cache'']
      \<lparr>fs = Dir [(''tmp'', Dir []), (''cache'', Dir [(''a$b.txt'', File ''abcdef'')])],
       net_log = [''http://host/a$b.txt''], open_fds = 0, unpack_log = []\<rparr> =
     (Inr [''cache'', ''a$b.txt''],
      \<lparr>fs = Dir [(''tmp'', Dir []), (''cache'', Dir [(''a$b.txt'', File ''abcdef'')])],
       net_log = [''http://host/a$b.txt'', ''http://host/a$b.txt''], open_fds = 0,
       unpack_log = []\<rparr>)"
  by (simp add: run_defs)

text \<open>
  A base name without metacharacters is found again: the second fetch of
  \<^verbatim>\<open>data.json\<close> returns the installed file and sends nothing.
\<close>

lemma get_from_cache_second_fetch_hit:
  "get_from_cache env0 ''http://host/data.json'' [''cache'']
      \<lparr>fs = Dir [(''tmp'', Dir []), (''cache'', Dir [(''data.json'', File ''abcdef'')])],
       net_log = [''http://host/data.json''], open_fds = 0, unpack_log = []\<rparr> =
     (Inr [''cache'', ''data.json''],
      \<lparr>fs = Dir [(''tmp'', Dir []), (''cache'', Dir [(''data.json'', File ''abcdef'')])],
       net_log = [''http://host/data.json''], open_fds = 0, unpack_log = []\<rparr>)"
  by (simp add: run_defs)

text \<open>
  Claim C6 says that a reply other than 200 raises a download error and leaves no new
  entry in the cache directory. The error is raised, but the scratch file is not
  removed: when the cache directory is the directory of the scratch files, it has
  gained an entry.
\<close>

theorem get_from_cache_non_200_leaves_entry:
  "listdir [''tmp''] (fs world0) = Inr [] \<and>
   fst (get_from_cache env_404 ''http://host/models/demo.zip'' [''tmp''] world0) = Inl HTTPError \<and>
   listdir [''tmp'']
     (fs (snd (get_from_cache env_404 ''http://host/models/demo.zip'' [''tmp''] world0)))
     = Inr [''tmpf'']"
  by (simp add: run_defs)

subsection \<open>Reading and writing the file system\<close>

lemma get_append:
  "get (p @ q) t = (case get p t of None \<Rightarrow> None | Some n \<Rightarrow> get q n)"
proof (induction p arbitrary: t)
  case Nil
  show ?case by simp
next
  case (Cons c cs)
  show ?case by (cases t) (auto simp: Cons.IH split: option.splits)
qed

lemma get_prefix_exists: "get (p @ q) t \<noteq> None \<Longrightarrow> get p t \<noteq> None"
  by (simp add: get_append split: option.splits)

lemma get_take_exists: "get p t \<noteq> None \<Longrightarrow> get (take k p) t \<noteq> None"
  using get_prefix_exists[of "take k p" "drop k p" t] by simp

lemma get_put_same: "put p n t = Some t' \<Longrightarrow> get p t' = Some n"
proof (induction p arbitrary: t t')
  case Nil
  then show ?case by simp
next
  case (Cons c cs)
  then show ?case
    by (cases t) (auto simp: update_conv' split: if_splits option.splits)
qed

lemma get_put_other:
  "put p n t = Some t' \<Longrightarrow> take (length p) q \<noteq> p \<Longrightarrow> take (length q) p \<noteq> q \<Longrightarrow>
   get q t' = get q t"
proof (induction p arbitrary: t t' q)
  case Nil
  then show ?case by simp
next
  case (Cons c cs)
  show ?case
  proof (cases q)
    case Nil
    with Cons.prems show ?thesis by simp
  next
    case (Cons d ds)
    with Cons.prems Cons.IH show ?thesis
      by (cases t) (auto simp: update_conv' split: if_splits option.splits)
  qed
qed

lemma put_parent_dir:
  "put (p @ [c]) n t = Some t' \<Longrightarrow> \<exists>es. get p t = Some (Dir es)"
proof (induction p arbitrary: t t')
  case Nil
  then show ?case by (cases t) auto
next
  case (Cons d ds)
  then show ?case by (cases t) (auto split: option.splits)
qed

lemma put_in_dir:
  "get p t = Some (Dir es) \<Longrightarrow> \<exists>t'. put (p @ [c]) n t = Some t'"
proof (induction p arbitrary: t)
  case Nil
  then show ?case by simp
next
  case (Cons d ds)
  then show ?case by (cases t) (auto split: option.splits)
qed

lemma get_put_child:
  "put (p @ [c]) n t = Some t' \<Longrightarrow> get p t = Some (Dir es) \<Longrightarrow>
   get p t' = Some (Dir (AList.update c n es))"
proof (induction p arbitrary: t t')
  case Nil
  then show ?case by simp
next
  case (Cons d ds)
  then show ?case by (cases t) (auto simp: update_conv' split: option.splits)
qed

lemma get_del_same: "p \<noteq> [] \<Longrightarrow> get p (del p t) = None"
proof (induction p arbitrary: t)
  case Nil
  then show ?case by simp
next
  case (Cons c cs)
  then show ?case
    by (cases t) (auto simp: update_conv' delete_conv' split: option.splits)
qed

lemma get_del_other:
  "take (length p) q \<noteq> p \<Longrightarrow> take (length q) p \<noteq> q \<Longrightarrow> get q (del p t) = get q t"
proof (induction p arbitrary: t q)
  case Nil
  then show ?case by simp
next
  case (Cons c cs)
  show ?case
  proof (cases q)
    case Nil
    with Cons.prems show ?thesis by simp
  next
    case (Cons d ds)
    with Cons.prems Cons.IH show ?thesis
      by (cases t) (auto simp: update_conv' delete_conv' split: if_splits option.splits)
  qed
qed

lemma get_none_below: "get p t = None \<Longrightarrow> get (p @ q) t = None"
  by (simp add: get_append)

lemma get_file_below: "get p t = Some (File x) \<Longrightarrow> q \<noteq> [] \<Longrightarrow> get (p @ q) t = None"
  by (cases q) (simp_all add: get_append)

lemma get_child: "get p t = Some (Dir es) \<Longrightarrow> get (p @ [c]) t = map_of es c"
  by (simp add: get_append split: option.splits)

lemma update_fresh: "k \<notin> fst ` set al \<Longrightarrow> AList.update k v al = al @ [(k, v)]"
  by (induction al) auto

text \<open>Two paths are apart when neither is the other or lies below it.\<close>

lemma apart_fresh_children:
  assumes "get (a @ [x]) t = None" "get a t \<noteq> None"
    and "get (b @ [y]) t = None" "get b t \<noteq> None" "a @ [x] \<noteq> b @ [y]"
  shows "take (length (a @ [x])) (b @ [y]) \<noteq> a @ [x]"
proof
  assume h: "take (length (a @ [x])) (b @ [y]) = a @ [x]"
  have "length (a @ [x]) \<le> length b"
  proof (rule ccontr)
    assume "\<not> length (a @ [x]) \<le> length b"
    then have "take (length (a @ [x])) (b @ [y]) = b @ [y]" by simp
    with h assms(5) show False by simp
  qed
  then have "take (length (a @ [x])) b = a @ [x]" using h by simp
  moreover have "get (take (length (a @ [x])) b) t \<noteq> None"
    using get_take_exists[OF assms(4)] .
  ultimately show False using assms(1) by simp
qed

lemma apart_extend:
  "take (length p) q \<noteq> p \<Longrightarrow> take (length q) p \<noteq> q \<Longrightarrow>
   take (length (p @ r)) q \<noteq> p @ r \<and> take (length q) (p @ r) \<noteq> q"
proof (intro conjI notI)
  assume a: "take (length p) q \<noteq> p" and h: "take (length (p @ r)) q = p @ r"
  from h have "take (length p) (take (length (p @ r)) q) = take (length p) (p @ r)" by simp
  then have "take (length p) q = p" by (simp add: min_def)
  with a show False by simp
next
  assume a: "take (length p) q \<noteq> p" and b: "take (length q) p \<noteq> q"
    and h: "take (length q) (p @ r) = q"
  show False
  proof (cases "length q \<le> length p")
    case True
    with h b show ?thesis by simp
  next
    case False
    then have "take (length p) (take (length q) (p @ r)) = p" by (simp add: min_def)
    with h a show ?thesis by simp
  qed
qed

lemma concat_nonempty_chunks: "concat (filter (\<lambda>chunk. chunk \<noteq> []) cs) = concat cs"
  by (induction cs) auto

lemma apart_siblings: "x \<noteq> y \<Longrightarrow> take (length (a @ [x])) (a @ [y]) \<noteq> a @ [x]"
  by simp

lemma entries_of_names:
  "distinct (map fst R) \<Longrightarrow> map (\<lambda>n. (n, the (map_of R n))) (map fst R) = R"
proof (induction R)
  case Nil
  then show ?case by simp
next
  case (Cons e R)
  obtain k v where e: "e = (k, v)" by (cases e)
  have "map (\<lambda>n. (n, the (map_of (e # R) n))) (map fst R) =
        map (\<lambda>n. (n, the (map_of R n))) (map fst R)"
    using Cons.prems e by (intro map_cong) auto
  with Cons e show ?case by simp
qed

subsection \<open>Resolving a path\<close>

lemma resolve_Nil: "resolve [] t = Inr []"
  by (simp add: resolve_def)

lemma resolve_snoc: "resolve (p @ [c]) t = enter (resolve p t) c t"
  by (simp add: resolve_def)

lemma loc_Nil: "loc [] = []"
  by (simp add: loc_def)

lemma loc_snoc: "loc (p @ [c]) = step (loc p) c"
  by (simp add: loc_def)

lemma step_name: "\<not> special c \<Longrightarrow> step cur c = cur @ [c]"
  by (simp add: step_def special_def)

lemma enter_Inr:
  "enter r c t = Inr q \<Longrightarrow> \<exists>cur es. r = Inr cur \<and> get cur t = Some (Dir es) \<and> q = step cur c"
  by (auto simp: enter_def split: sum.splits option.splits node.splits)

lemma resolve_loc: "resolve p t = Inr q \<Longrightarrow> q = loc p"
proof (induction p arbitrary: q rule: rev_induct)
  case Nil
  then show ?case by (simp add: resolve_Nil loc_Nil)
next
  case (snoc c p)
  from snoc.prems obtain cur es where
    r: "resolve p t = Inr cur" and q: "q = step cur c"
    using enter_Inr[of "resolve p t" c t q] by (auto simp: resolve_snoc)
  from snoc.IH[OF r] q show ?case by (simp add: loc_snoc)
qed

lemma resolve_kept:
  "dirs_kept t t' \<Longrightarrow> resolve p t = Inr q \<Longrightarrow> resolve p t' = Inr q"
proof (induction p arbitrary: q rule: rev_induct)
  case Nil
  then show ?case by (simp add: resolve_Nil)
next
  case (snoc c p)
  from snoc.prems(2) obtain cur es where
    r: "resolve p t = Inr cur" and g: "get cur t = Some (Dir es)" and q: "q = step cur c"
    using enter_Inr[of "resolve p t" c t q] by (auto simp: resolve_snoc)
  from snoc.prems(1) g obtain es' where g': "get cur t' = Some (Dir es')"
    by (auto simp: dirs_kept_def)
  from snoc.IH[OF snoc.prems(1) r] g' q show ?case by (simp add: resolve_snoc enter_def)
qed

lemma isdir_iff:
  "isdir p t = (resolve p t = Inr (loc p) \<and> (\<exists>es. get (loc p) t = Some (Dir es)))"
proof (cases "resolve p t")
  case (Inl e)
  then show ?thesis by (simp add: isdir_def stat_def)
next
  case (Inr q)
  with resolve_loc[OF Inr] show ?thesis
    by (auto simp: isdir_def stat_def split: option.splits node.splits)
qed

lemma isdir_kept: "dirs_kept t t' \<Longrightarrow> isdir p t \<Longrightarrow> isdir p t'"
  unfolding isdir_iff using resolve_kept[of t t' p "loc p"] by (auto simp: dirs_kept_def)

lemma resolve_child: "isdir p t \<Longrightarrow> resolve (p @ [c]) t = Inr (step (loc p) c)"
  by (auto simp: isdir_iff resolve_snoc enter_def)

lemma resolve_child_Inr: "resolve (p @ [c]) t = Inr q \<Longrightarrow> isdir p t"
proof -
  assume "resolve (p @ [c]) t = Inr q"
  then obtain cur es where r: "resolve p t = Inr cur" and g: "get cur t = Some (Dir es)"
    using enter_Inr[of "resolve p t" c t q] by (auto simp: resolve_snoc)
  from resolve_loc[OF r] r g show ?thesis by (simp add: isdir_iff)
qed

lemma stat_child: "isdir p t \<Longrightarrow> \<not> special c \<Longrightarrow> stat (p @ [c]) t = get (loc p @ [c]) t"
  by (simp add: stat_def resolve_child step_name)

lemma stat_isdir: "isdir p t \<Longrightarrow> stat p t = get (loc p) t"
  by (auto simp: isdir_iff stat_def)

lemma exists_special_child: "isdir p t \<Longrightarrow> special c \<Longrightarrow> exists (p @ [c]) t"
proof -
  assume d: "isdir p t" and s: "special c"
  from d obtain es where g: "get (loc p) t = Some (Dir es)" by (auto simp: isdir_iff)
  then have "get (butlast (loc p)) t \<noteq> None"
    using get_take_exists[of "loc p" t "length (loc p) - 1"] by (simp add: butlast_conv_take)
  with g s show ?thesis
    by (auto simp: exists_def stat_def resolve_child[OF d] step_def special_def)
qed

lemma create_child:
  "isdir p t \<Longrightarrow> \<not> special c \<Longrightarrow> create (p @ [c]) n t = put (loc p @ [c]) n t"
  by (simp add: create_def resolve_child step_name)

lemma create_Some:
  "create (p @ [c]) n t = Some t' \<Longrightarrow>
   isdir p t \<and> \<not> special c \<and> put (loc p @ [c]) n t = Some t'"
proof -
  assume a: "create (p @ [c]) n t = Some t'"
  then have s: "\<not> special c" by (auto simp: create_def split: if_splits)
  from a obtain q where "resolve (p @ [c]) t = Inr q"
    by (auto simp: create_def split: if_splits sum.splits)
  then have d: "isdir p t" by (rule resolve_child_Inr)
  from a create_child[OF d s] d s show ?thesis by simp
qed

lemma unlink_child:
  "isdir p t \<Longrightarrow> \<not> special c \<Longrightarrow> unlink (p @ [c]) t = Some (del (loc p @ [c]) t)"
  by (simp add: unlink_def resolve_child step_name)

lemma unlink_Some:
  "unlink (p @ [c]) t = Some t' \<Longrightarrow>
   isdir p t \<and> \<not> special c \<and> t' = del (loc p @ [c]) t"
proof -
  assume a: "unlink (p @ [c]) t = Some t'"
  then have s: "\<not> special c" by (auto simp: unlink_def split: if_splits)
  from a obtain q where "resolve (p @ [c]) t = Inr q"
    by (auto simp: unlink_def split: if_splits sum.splits)
  then have d: "isdir p t" by (rule resolve_child_Inr)
  from a unlink_child[OF d s] d s show ?thesis by simp
qed

lemma loc_child: "\<not> special c \<Longrightarrow> loc (p @ [c]) = loc p @ [c]"
  by (simp add: loc_snoc step_name)

lemma isdir_child:
  "isdir p t \<Longrightarrow> \<not> special c \<Longrightarrow> isdir (p @ [c]) t = (\<exists>es. get (loc p @ [c]) t = Some (Dir es))"
  by (auto simp: isdir_def stat_child split: option.splits node.splits)

lemma stat_none: "get (loc p) t = None \<Longrightarrow> stat p t = None"
proof (cases "resolve p t")
  case (Inl e)
  then show ?thesis by (simp add: stat_def)
next
  case (Inr q)
  assume "get (loc p) t = None"
  with resolve_loc[OF Inr] Inr show ?thesis by (simp add: stat_def)
qed

subsection \<open>Directories that stay\<close>

lemma dirs_kept_refl: "dirs_kept t t"
  by (simp add: dirs_kept_def)

lemma dirs_kept_trans: "dirs_kept t t' \<Longrightarrow> dirs_kept t' t'' \<Longrightarrow> dirs_kept t t''"
  unfolding dirs_kept_def by blast

lemma path_cases:
  obtains (apart) "take (length l) q \<noteq> l" "take (length q) l \<noteq> q"
  | (same) "q = l"
  | (below) r where "q = l @ r" "r \<noteq> []"
  | (above) r where "l = q @ r" "r \<noteq> []"
proof (cases "take (length l) q = l")
  case True
  then have "q = l @ drop (length l) q" by (metis append_take_drop_id)
  then show ?thesis using same below by (cases "drop (length l) q = []") auto
next
  case False
  show ?thesis
  proof (cases "take (length q) l = q")
    case True
    then have "l = q @ drop (length q) l" by (metis append_take_drop_id)
    then show ?thesis using same above by (cases "drop (length q) l = []") auto
  next
    case f: False
    with False apart show ?thesis by blast
  qed
qed

lemma get_dir_above:
  assumes "get (q @ r) t = Some n" "r \<noteq> []"
  shows "\<exists>es. get q t = Some (Dir es)"
proof (cases "get q t")
  case None
  with get_none_below[OF None, of r] assms show ?thesis by simp
next
  case (Some m)
  show ?thesis
  proof (cases m)
    case (File x)
    with get_file_below[of q t x r] Some assms show ?thesis by simp
  next
    case (Dir es)
    with Some show ?thesis by simp
  qed
qed

lemma dirs_kept_put:
  assumes p: "put l n t = Some t'" and nd: "\<forall>es. get l t \<noteq> Some (Dir es)"
  shows "dirs_kept t t'"
  unfolding dirs_kept_def
proof (intro allI impI)
  fix q es
  assume g: "get q t = Some (Dir es)"
  show "\<exists>es'. get q t' = Some (Dir es')"
  proof (cases l q rule: path_cases)
    case apart
    from get_put_other[OF p apart] g show ?thesis by simp
  next
    case same
    with g nd show ?thesis by simp
  next
    case (below r)
    have "get (l @ r) t = None"
    proof (cases "get l t")
      case None
      then show ?thesis by (rule get_none_below)
    next
      case (Some m)
      with nd obtain x where "m = File x" by (cases m) auto
      with Some get_file_below[of l t x r] below show ?thesis by simp
    qed
    with g below show ?thesis by simp
  next
    case (above r)
    from get_put_same[OF p] above have "get (q @ r) t' = Some n" by simp
    from get_dir_above[OF this above(2)] show ?thesis .
  qed
qed

lemma get_del_above:
  "get q t = Some (Dir es) \<Longrightarrow> r \<noteq> [] \<Longrightarrow> \<exists>es'. get q (del (q @ r) t) = Some (Dir es')"
proof (induction q arbitrary: t)
  case Nil
  then show ?case by (cases r) (auto split: option.splits)
next
  case (Cons d ds)
  then show ?case
    by (cases t) (auto simp: update_conv' split: option.splits)
qed

lemma dirs_kept_del:
  assumes k: "dirs_kept t0 t" and fr: "get l t0 = None"
  shows "dirs_kept t0 (del l t)"
  unfolding dirs_kept_def
proof (intro allI impI)
  fix q es
  assume g0: "get q t0 = Some (Dir es)"
  with k obtain es1 where g: "get q t = Some (Dir es1)" by (auto simp: dirs_kept_def)
  show "\<exists>es'. get q (del l t) = Some (Dir es')"
  proof (cases l q rule: path_cases)
    case apart
    from get_del_other[OF apart] g show ?thesis by simp
  next
    case same
    with g0 fr show ?thesis by simp
  next
    case (below r)
    with get_none_below[OF fr, of r] g0 show ?thesis by simp
  next
    case (above r)
    with get_del_above[OF g above(2)] show ?thesis by simp
  qed
qed

subsection \<open>Creating directories\<close>

lemma os_mkdir_Inr:
  assumes "os_mkdir p t = Inr t'"
  shows "isdir p t' \<and> dirs_kept t t' \<and> get (loc p) t = None \<and>
         put (loc p) (Dir []) t = Some t'"
proof -
  from assms obtain q where r: "resolve p t = Inr q" and g: "get q t = None"
    and pt: "put q (Dir []) t = Some t'"
    by (auto simp: os_mkdir_def split: sum.splits option.splits)
  have q: "q = loc p" using resolve_loc[OF r] .
  have k: "dirs_kept t t'" using dirs_kept_put[OF pt] g by simp
  have "resolve p t' = Inr (loc p)" using resolve_kept[OF k r] q by simp
  with get_put_same[OF pt] q k g pt show ?thesis by (simp add: isdir_iff)
qed

lemma path_mkdir_Inr: "path_mkdir p t = Inr t' \<Longrightarrow> isdir p t' \<and> dirs_kept t t'"
proof (induction p t arbitrary: t' rule: path_mkdir.induct)
  case (1 p t)
  show ?case
  proof (cases "os_mkdir p t")
    case (Inr t2)
    with "1.prems" have "t' = t2" by (simp add: path_mkdir.simps[of p t])
    with os_mkdir_Inr[OF Inr] show ?thesis by simp
  next
    case (Inl e)
    show ?thesis
    proof (cases "e = FileNotFoundError")
      case False
      with "1.prems" Inl show ?thesis
        by (auto simp: path_mkdir.simps[of p t] dirs_kept_refl split: if_splits)
    next
      case True
      with "1.prems" Inl have ne: "p \<noteq> []"
        by (auto simp: path_mkdir.simps[of p t] split: if_splits)
      from "1.prems" Inl True ne obtain t1 where
        par: "path_mkdir (butlast p) t = Inr t1"
        by (cases "path_mkdir (butlast p) t") (auto simp: path_mkdir.simps[of p t])
      from "1.IH"[OF Inl True ne par] have k1: "dirs_kept t t1" by simp
      show ?thesis
      proof (cases "os_mkdir p t1")
        case (Inr t2)
        with "1.prems" Inl True ne par have "t' = t2" by (simp add: path_mkdir.simps[of p t])
        with os_mkdir_Inr[OF Inr] k1 show ?thesis by (auto intro: dirs_kept_trans)
      next
        case i2: (Inl e2)
        with "1.prems" Inl True ne par k1 show ?thesis
          by (auto simp: path_mkdir.simps[of p t] split: if_splits)
      qed
    qed
  qed
qed

lemma path_mkdir_isdir: "isdir p t \<Longrightarrow> path_mkdir p t = Inr t"
proof -
  assume d: "isdir p t"
  then have "os_mkdir p t = Inl FileExistsError"
    by (auto simp: isdir_iff os_mkdir_def)
  with d show ?thesis by (simp add: path_mkdir.simps[of p t])
qed

lemma path_mkdir_child:
  assumes "isdir p t" "\<not> special c" "get (loc p @ [c]) t = None"
  shows "\<exists>t'. put (loc p @ [c]) (Dir []) t = Some t' \<and> path_mkdir (p @ [c]) t = Inr t'"
proof -
  from assms(1) obtain es where g: "get (loc p) t = Some (Dir es)" by (auto simp: isdir_iff)
  from put_in_dir[OF g, of c "Dir []"] obtain t' where
    pt: "put (loc p @ [c]) (Dir []) t = Some t'" by blast
  have "os_mkdir (p @ [c]) t = Inr t'"
    using assms pt by (simp add: os_mkdir_def resolve_child step_name)
  then show ?thesis using pt by (simp add: path_mkdir.simps[of "p @ [c]" t])
qed

lemma path_mkdir_file: "stat p t = Some (File x) \<Longrightarrow> path_mkdir p t = Inl FileExistsError"
proof -
  assume s: "stat p t = Some (File x)"
  then have "os_mkdir p t = Inl FileExistsError"
    by (auto simp: stat_def os_mkdir_def split: sum.splits)
  with s show ?thesis by (simp add: path_mkdir.simps[of p t] isdir_def)
qed

subsection \<open>The lookup\<close>

lemma match_loop_subset:
  "match_loop E dir_name files acc = Inr ms \<Longrightarrow> set ms \<subseteq> set acc \<union> set files"
proof (induction files arbitrary: acc)
  case Nil
  then show ?case by simp
next
  case (Cons f fs)
  then show ?case
    by (fastforce split: sum.splits bool.splits)
qed

lemma match_file_listed:
  assumes "match_file E dir_name cache_dir t = Inr m" "m \<noteq> ''''"
  shows "exists (child cache_dir m) t"
proof -
  from assms obtain es ms where
    g: "stat cache_dir t = Some (Dir es)" and
    l: "match_loop E dir_name (map fst es) [] = Inr ms" and m: "m \<in> set ms"
    by (auto simp: match_file_def listdir_def split: option.splits node.splits sum.splits if_splits
        intro: last_in_set)
  from g have d: "isdir cache_dir t" by (simp add: isdir_def)
  from match_loop_subset[OF l] m have "m \<in> fst ` set es" by auto
  then have mo: "map_of es m \<noteq> None" by (simp add: map_of_eq_None_iff)
  show ?thesis
  proof (cases "special m")
    case True
    with exists_special_child[OF d True] g show ?thesis
      by (auto simp: child_def exists_def)
  next
    case False
    with mo g stat_isdir[OF d] stat_child[OF d False] show ?thesis
      by (simp add: child_def special_def exists_def get_child)
  qed
qed

lemma child_fresh:
  assumes "isdir p t" "\<not> exists (child p name) t"
  shows "child p name = p @ [name] \<and> \<not> special name \<and> get (loc p @ [name]) t = None"
proof -
  have s: "\<not> special name"
  proof
    assume sp: "special name"
    from exists_special_child[OF assms(1) sp] assms show False
      by (auto simp: child_def exists_def isdir_def split: if_splits option.splits)
  qed
  then have c: "child p name = p @ [name]" by (simp add: child_def special_def)
  with assms stat_child[OF assms(1) s] s show ?thesis by (simp add: exists_def)
qed

lemma get_from_cache_miss:
  assumes "get_from_cache E url cache_dir w = (r, w')" "net_log w' \<noteq> net_log w"
  shows "\<exists>t1 m. path_mkdir cache_dir (fs w) = Inr t1 \<and>
           match_file E (fst (split_filename_suffix (re_sub_dirs url))) cache_dir t1 = Inr m \<and>
           \<not> exists (child cache_dir (if m \<noteq> '''' then m
                                 else fst (split_filename_suffix (re_sub_dirs url)))) t1 \<and>
           download E url (snd (split_filename_suffix (re_sub_dirs url)))
             (child cache_dir (if m \<noteq> '''' then m
                               else fst (split_filename_suffix (re_sub_dirs url))))
             (w\<lparr>fs := t1\<rparr>) = (r, w')"
proof -
  let ?dn = "fst (split_filename_suffix (re_sub_dirs url))"
  obtain t1 where mk: "path_mkdir cache_dir (fs w) = Inr t1"
    using assms by (cases "path_mkdir cache_dir (fs w)") (auto simp: get_from_cache_def)
  obtain m where ma: "match_file E ?dn cache_dir t1 = Inr m"
    using assms mk
    by (cases "match_file E ?dn cache_dir t1") (auto simp: get_from_cache_def Let_def)
  let ?cp = "child cache_dir (if m \<noteq> '''' then m else ?dn)"
  have run: "(if exists ?cp t1 then (get_filepath ?cp (fs (w\<lparr>fs := t1\<rparr>)), w\<lparr>fs := t1\<rparr>)
              else download E url (snd (split_filename_suffix (re_sub_dirs url))) ?cp (w\<lparr>fs := t1\<rparr>))
             = (r, w')"
    using assms(1) mk ma
    by (simp add: get_from_cache_def Let_def split del: if_split)
  have miss: "\<not> exists ?cp t1"
  proof
    assume "exists ?cp t1"
    with run have "w' = w\<lparr>fs := t1\<rparr>" by (simp split del: if_split)
    with assms(2) show False by simp
  qed
  with run have "download E url (snd (split_filename_suffix (re_sub_dirs url))) ?cp (w\<lparr>fs := t1\<rparr>)
      = (r, w')" by (simp split del: if_split)
  with mk ma miss show ?thesis by (simp split del: if_split)
qed

lemma get_from_cache_miss_path:
  assumes "get_from_cache E url cache_dir w = (r, w')" "net_log w' \<noteq> net_log w"
  shows "\<exists>t1. path_mkdir cache_dir (fs w) = Inr t1 \<and> isdir cache_dir t1 \<and>
           match_file E (fst (split_filename_suffix (re_sub_dirs url))) cache_dir t1 = Inr '''' \<and>
           \<not> special (fst (split_filename_suffix (re_sub_dirs url))) \<and>
           get (loc cache_dir @ [fst (split_filename_suffix (re_sub_dirs url))]) t1 = None \<and>
           download E url (snd (split_filename_suffix (re_sub_dirs url)))
             (cache_dir @ [fst (split_filename_suffix (re_sub_dirs url))])
             (w\<lparr>fs := t1\<rparr>) = (r, w')"
proof -
  let ?dn = "fst (split_filename_suffix (re_sub_dirs url))"
  from get_from_cache_miss[OF assms] obtain t1 m where
    mk: "path_mkdir cache_dir (fs w) = Inr t1" and
    ma: "match_file E ?dn cache_dir t1 = Inr m" and
    fr: "\<not> exists (child cache_dir (if m \<noteq> '''' then m else ?dn)) t1" and
    dl: "download E url (snd (split_filename_suffix (re_sub_dirs url)))
           (child cache_dir (if m \<noteq> '''' then m else ?dn)) (w\<lparr>fs := t1\<rparr>) = (r, w')"
    by blast
  from path_mkdir_Inr[OF mk] have cd: "isdir cache_dir t1" by simp
  have m: "m = ''''"
  proof (rule ccontr)
    assume "m \<noteq> ''''"
    with match_file_listed[OF ma] fr show False by simp
  qed
  from fr m have fr': "\<not> exists (child cache_dir ?dn) t1" by simp
  from child_fresh[OF cd fr'] mk cd ma m dl show ?thesis by simp
qed

subsection \<open>What a successful step has done\<close>

lemma mkstemp_Inr:
  assumes "mkstemp E w = (Inr F, w1)"
  shows "F = tmp_root E @ [tmp_file_name E] \<and> isdir (tmp_root E) (fs w) \<and>
         \<not> special (tmp_file_name E) \<and>
         get (loc (tmp_root E) @ [tmp_file_name E]) (fs w) = None \<and>
         put (loc (tmp_root E) @ [tmp_file_name E]) (File '''') (fs w) = Some (fs w1) \<and>
         net_log w1 = net_log w \<and> unpack_log w1 = unpack_log w"
proof -
  let ?p = "tmp_root E @ [tmp_file_name E]"
  from assms have ne: "\<not> exists ?p (fs w)"
    by (auto simp: mkstemp_def Let_def split: if_splits)
  with assms obtain t where c: "create ?p (File '''') (fs w) = Some t"
    and r: "F = ?p" "w1 = w\<lparr>fs := t, open_fds := Suc (open_fds w)\<rparr>"
    by (auto simp: mkstemp_def Let_def split: option.splits)
  from create_Some[OF c] have d: "isdir (tmp_root E) (fs w)" and s: "\<not> special (tmp_file_name E)"
    and p: "put (loc (tmp_root E) @ [tmp_file_name E]) (File '''') (fs w) = Some t" by auto
  from ne stat_child[OF d s] have "get (loc (tmp_root E) @ [tmp_file_name E]) (fs w) = None"
    by (simp add: exists_def)
  with d s p r show ?thesis by simp
qed

lemma mkdtemp_Inr:
  assumes "mkdtemp E w = (Inr T, w1)"
  shows "T = tmp_root E @ [tmp_dir_name E] \<and> isdir (tmp_root E) (fs w) \<and>
         \<not> special (tmp_dir_name E) \<and>
         get (loc (tmp_root E) @ [tmp_dir_name E]) (fs w) = None \<and>
         put (loc (tmp_root E) @ [tmp_dir_name E]) (Dir []) (fs w) = Some (fs w1) \<and>
         net_log w1 = net_log w \<and> unpack_log w1 = unpack_log w"
proof -
  let ?p = "tmp_root E @ [tmp_dir_name E]"
  from assms have ne: "\<not> exists ?p (fs w)"
    by (auto simp: mkdtemp_def Let_def split: if_splits)
  with assms obtain t where c: "create ?p (Dir []) (fs w) = Some t"
    and r: "T = ?p" "w1 = w\<lparr>fs := t\<rparr>"
    by (auto simp: mkdtemp_def Let_def split: option.splits)
  from create_Some[OF c] have d: "isdir (tmp_root E) (fs w)" and s: "\<not> special (tmp_dir_name E)"
    and p: "put (loc (tmp_root E) @ [tmp_dir_name E]) (Dir []) (fs w) = Some t" by auto
  from ne stat_child[OF d s] have "get (loc (tmp_root E) @ [tmp_dir_name E]) (fs w) = None"
    by (simp add: exists_def)
  with d s p r show ?thesis by simp
qed

lemma write_chunks_None:
  assumes "write_chunks (p @ [c]) req w = (None, w')"
  shows "isdir p (fs w) \<and> \<not> special c \<and> \<not> stream_breaks req \<and>
         (\<forall>es. get (loc p @ [c]) (fs w) \<noteq> Some (Dir es)) \<and>
         put (loc p @ [c]) (File (concat (chunks req))) (fs w) = Some (fs w') \<and>
         net_log w' = net_log w \<and> unpack_log w' = unpack_log w"
proof -
  from assms have nd: "\<not> isdir (p @ [c]) (fs w)"
    by (auto simp: write_chunks_def split: if_splits)
  with assms obtain t where
    cr: "create (p @ [c]) (File (concat (chunks req))) (fs w) = Some t" and
    r: "\<not> stream_breaks req" "w' = w\<lparr>fs := t\<rparr>"
    by (auto simp: write_chunks_def concat_nonempty_chunks split: option.splits if_splits)
  from create_Some[OF cr] have d: "isdir p (fs w)" and s: "\<not> special c"
    and pt: "put (loc p @ [c]) (File (concat (chunks req))) (fs w) = Some t" by auto
  from nd stat_child[OF d s] have "\<forall>es. get (loc p @ [c]) (fs w) \<noteq> Some (Dir es)"
    by (auto simp: isdir_def)
  with d s pt r show ?thesis by simp
qed

lemma copyfile_None:
  assumes "copyfile E src (p @ [c]) w = (None, w')"
  shows "\<not> samefile src (p @ [c]) (fs w) \<and> isdir p (fs w) \<and> \<not> special c \<and>
         copy_fault E (p @ [c]) = None \<and>
         (\<forall>es. get (loc p @ [c]) (fs w) \<noteq> Some (Dir es)) \<and>
         (\<exists>bytes. stat src (fs w) = Some (File bytes) \<and>
            put (loc p @ [c]) (File bytes) (fs w) = Some (fs w')) \<and>
         net_log w' = net_log w \<and> unpack_log w' = unpack_log w"
proof -
  from assms obtain bytes t where
    sf: "\<not> samefile src (p @ [c]) (fs w)" and st: "stat src (fs w) = Some (File bytes)" and
    nd: "\<not> isdir (p @ [c]) (fs w)" and cf: "copy_fault E (p @ [c]) = None" and
    cr: "create (p @ [c]) (File bytes) (fs w) = Some t" and r: "w' = w\<lparr>fs := t\<rparr>"
    by (auto simp: copyfile_def split: if_splits option.splits node.splits fault.splits)
  from create_Some[OF cr] have d: "isdir p (fs w)" and s: "\<not> special c"
    and pt: "put (loc p @ [c]) (File bytes) (fs w) = Some t" by auto
  from nd stat_child[OF d s] have "\<forall>es. get (loc p @ [c]) (fs w) \<noteq> Some (Dir es)"
    by (auto simp: isdir_def)
  with sf st cf d s pt r show ?thesis by simp
qed

lemma copytree_None:
  assumes "copytree E src (p @ [c]) w = (None, w')"
  shows "isdir p (fs w) \<and> \<not> special c \<and> copy_fault E (p @ [c]) = None \<and>
         get (loc p @ [c]) (fs w) = None \<and>
         (\<exists>es. stat src (fs w) = Some (Dir es) \<and>
            put (loc p @ [c]) (Dir es) (fs w) = Some (fs w')) \<and>
         net_log w' = net_log w \<and> unpack_log w' = unpack_log w"
proof -
  from assms obtain es t where
    st: "stat src (fs w) = Some (Dir es)" and
    ne: "\<not> exists (p @ [c]) (fs w)" and cf: "copy_fault E (p @ [c]) = None" and
    cr: "create (p @ [c]) (Dir es) (fs w) = Some t" and r: "w' = w\<lparr>fs := t\<rparr>"
    by (auto simp: copytree_def split: if_splits option.splits node.splits fault.splits)
  from create_Some[OF cr] have d: "isdir p (fs w)" and s: "\<not> special c"
    and pt: "put (loc p @ [c]) (Dir es) (fs w) = Some t" by auto
  from ne stat_child[OF d s] have "get (loc p @ [c]) (fs w) = None"
    by (simp add: exists_def)
  with st cf d s pt r show ?thesis by simp
qed

lemma rmtree_None:
  assumes "rmtree (p @ [c]) w = (None, w')"
  shows "isdir p (fs w) \<and> \<not> special c \<and>
         (\<exists>es. get (loc p @ [c]) (fs w) = Some (Dir es)) \<and> fs w' = del (loc p @ [c]) (fs w) \<and>
         net_log w' = net_log w \<and> unpack_log w' = unpack_log w"
proof -
  from assms obtain es t where
    st: "stat (p @ [c]) (fs w) = Some (Dir es)" and
    ul: "unlink (p @ [c]) (fs w) = Some t" and r: "w' = w\<lparr>fs := t\<rparr>"
    by (auto simp: rmtree_def split: option.splits node.splits)
  from unlink_Some[OF ul] have d: "isdir p (fs w)" and s: "\<not> special c"
    and t: "t = del (loc p @ [c]) (fs w)" by auto
  from st stat_child[OF d s] d s t r show ?thesis by simp
qed

lemma os_remove_None:
  assumes "os_remove (p @ [c]) w = (None, w')"
  shows "isdir p (fs w) \<and> \<not> special c \<and>
         (\<exists>x. get (loc p @ [c]) (fs w) = Some (File x)) \<and> fs w' = del (loc p @ [c]) (fs w) \<and>
         net_log w' = net_log w \<and> unpack_log w' = unpack_log w"
proof -
  from assms obtain x t where
    st: "stat (p @ [c]) (fs w) = Some (File x)" and
    ul: "unlink (p @ [c]) (fs w) = Some t" and r: "w' = w\<lparr>fs := t\<rparr>"
    by (auto simp: os_remove_def split: option.splits node.splits)
  from unlink_Some[OF ul] have d: "isdir p (fs w)" and s: "\<not> special c"
    and t: "t = del (loc p @ [c]) (fs w)" by auto
  from st stat_child[OF d s] d s t r show ?thesis by simp
qed

lemma and_then_None:
  "and_then r k = (None, w') \<Longrightarrow> \<exists>w1. r = (None, w1) \<and> k w1 = (None, w')"
  by (cases r) (auto simp: and_then_def split: option.splits)


lemma finally_block_success:
  assumes "finally_block cache_path True delete_temp_dir (p @ [c]) w = (None, w')"
  shows "\<exists>w1. (case delete_temp_dir of Some d \<Rightarrow> rmtree d w | None \<Rightarrow> (None, w)) = (None, w1) \<and>
           isdir p (fs w1) \<and> \<not> special c \<and>
           (\<exists>x. get (loc p @ [c]) (fs w1) = Some (File x)) \<and>
           fs w' = del (loc p @ [c]) (fs w1) \<and>
           net_log w' = net_log w1 \<and> unpack_log w' = unpack_log w1"
proof -
  from assms have
    "and_then (case delete_temp_dir of Some d \<Rightarrow> rmtree d w | None \<Rightarrow> (None, w))
       (\<lambda>w. and_then (os_close w) (os_remove (p @ [c]))) = (None, w')"
    by (simp add: finally_block_def and_then_def)
  from and_then_None[OF this] obtain w1 where
    1: "(case delete_temp_dir of Some d \<Rightarrow> rmtree d w | None \<Rightarrow> (None, w)) = (None, w1)" and
    2: "and_then (os_close w1) (os_remove (p @ [c])) = (None, w')" by blast
  from and_then_None[OF 2] obtain w2 where
    3: "os_close w1 = (None, w2)" and 4: "os_remove (p @ [c]) w2 = (None, w')" by blast
  from 3 have w2: "fs w2 = fs w1" "net_log w2 = net_log w1" "unpack_log w2 = unpack_log w1"
    by (auto simp: os_close_def)
  from os_remove_None[OF 4] w2 1 show ?thesis by auto
qed

lemma install_Inr:
  assumes "install E cache_path utd dtd F w = (Inr p, w')"
  shows "\<exists>w1. copy_to_cache E cache_path utd w = (None, w1) \<and>
           finally_block cache_path True dtd F w1 = (None, w') \<and>
           get_filepath (path_of cache_path) (fs w') = Inr p"
proof -
  obtain copied w1 where c: "copy_to_cache E cache_path utd w = (copied, w1)"
    by (cases "copy_to_cache E cache_path utd w")
  obtain raised w2 where f: "finally_block cache_path (copied = None) dtd F w1 = (raised, w2)"
    by (cases "finally_block cache_path (copied = None) dtd F w1")
  from assms c f have "raised = None" "copied = None"
    by (auto simp: install_def split: option.splits)
  with assms c f show ?thesis by (auto simp: install_def)
qed

lemma download_Inr:
  assumes "download E url sfx cache_path w = (Inr p, w')" "http_get E url = Some req"
  shows "\<exists>F w1 w3 cpv utd dtd w4.
           mkstemp E w = (Inr F, w1) \<and>
           write_chunks F req (w1\<lparr>net_log := net_log w1 @ [url]\<rparr>) = (None, w3) \<and>
           uncompress E sfx F cache_path w3 = (Inr (cpv, utd, dtd), w4) \<and>
           install E cpv utd dtd F w4 = (Inr p, w')"
proof -
  obtain F w1 where m: "mkstemp E w = (Inr F, w1)"
    using assms(1) by (cases "mkstemp E w") (auto simp: download_def split: sum.splits)
  have ok: "status_code req = 200" "content_length_ok req"
    using assms m by (auto simp: download_def Let_def split: if_splits)
  obtain w3 where wr: "write_chunks F req (w1\<lparr>net_log := net_log w1 @ [url]\<rparr>) = (None, w3)"
    using assms m ok
    by (cases "write_chunks F req (w1\<lparr>net_log := net_log w1 @ [url]\<rparr>)")
       (auto simp: download_def Let_def split: option.splits)
  obtain cpv utd dtd w4 where u: "uncompress E sfx F cache_path w3 = (Inr (cpv, utd, dtd), w4)"
    using assms m ok wr
    by (cases "uncompress E sfx F cache_path w3")
       (auto simp: download_def Let_def split: sum.splits)
  have "install E cpv utd dtd F w4 = (Inr p, w')"
    using assms m ok wr u by (simp add: download_def Let_def)
  with m wr u show ?thesis by blast
qed

lemma basename_has_no_slash: "CHR ''/'' \<notin> set (basename p)"
  by (auto simp: basename_def dest: set_takeWhileD)

lemma split_filename_suffix_no_dot:
  assumes "CHR ''.'' \<notin> set (basename f)"
  shows "split_filename_suffix f = (basename f, '''')"
proof -
  have "\<not> endswith (basename f) ''.tar.gz''"
  proof
    assume "endswith (basename f) ''.tar.gz''"
    then have "set ''.tar.gz'' \<subseteq> set (basename f)"
      using set_drop_subset[of "length (basename f) - length ''.tar.gz''" "basename f"]
      by (simp add: endswith_def)
    with assms show False by simp
  qed
  moreover have "basename (basename f) = basename f"
    using basename_has_no_slash by (rule basename_no_slash)
  ultimately show ?thesis
    using assms by (simp add: split_filename_suffix_def splitext_def Let_def)
qed

lemma lines_of_no_newline: "newline \<notin> set s \<Longrightarrow> lines_of s = [s]"
  by (induction s) auto

lemma re_sub_dirs_no_newline: "newline \<notin> set url \<Longrightarrow> basename (re_sub_dirs url) = basename url"
proof -
  assume "newline \<notin> set url"
  then have "re_sub_dirs url = strip_line url"
    by (simp add: re_sub_dirs_def lines_of_no_newline)
  moreover have "basename (basename url) = basename url"
    using basename_has_no_slash by (rule basename_no_slash)
  ultimately show ?thesis by (simp add: strip_line_def)
qed

subsection \<open>A download that is no archive\<close>

text \<open>
  Claim C9. When the trailing path segment that \<open>get_from_cache\<close> derives from the URL
  holds no dot, a fetch that sends the request and succeeds installs the downloaded
  bytes as one file named by that bare segment under the cache directory and returns
  its path, and no archive decoder is called. For a URL without a newline the derived
  segment is the text after the last slash of the URL. This holds for every
  regular-expression engine, every cache directory and every content of it.
\<close>

theorem get_from_cache_no_dot_installs_file:
  assumes run: "get_from_cache E url cache_dir w = (Inr p, w')"
    and sent: "net_log w' \<noteq> net_log w"
    and nodot: "CHR ''.'' \<notin> set (basename (re_sub_dirs url))"
    and reply: "http_get E url = Some req"
  shows "p = cache_dir @ [basename (re_sub_dirs url)] \<and>
         stat p (fs w') = Some (File (concat (chunks req))) \<and>
         unpack_log w' = unpack_log w \<and>
         (newline \<notin> set url \<longrightarrow> basename (re_sub_dirs url) = basename url)"
proof -
  let ?b = "basename (re_sub_dirs url)"
  let ?cp = "cache_dir @ [?b]"
  let ?L = "loc cache_dir @ [?b]"
  let ?F = "tmp_root E @ [tmp_file_name E]"
  let ?FL = "loc (tmp_root E) @ [tmp_file_name E]"
  let ?body = "concat (chunks req)"
  have sp: "split_filename_suffix (re_sub_dirs url) = (?b, '''')"
    using nodot by (rule split_filename_suffix_no_dot)
  from get_from_cache_miss_path[OF run sent] sp obtain t1 where
    cd: "isdir cache_dir t1" and nb: "\<not> special ?b" and
    fr: "get ?L t1 = None" and
    dl: "download E url '''' ?cp (w\<lparr>fs := t1\<rparr>) = (Inr p, w')"
    by auto
  from download_Inr[OF dl reply] obtain F w1 w3 cpv utd dtd w4 where
    ms: "mkstemp E (w\<lparr>fs := t1\<rparr>) = (Inr F, w1)" and
    wr: "write_chunks F req (w1\<lparr>net_log := net_log w1 @ [url]\<rparr>) = (None, w3)" and
    un: "uncompress E '''' F ?cp w3 = (Inr (cpv, utd, dtd), w4)" and
    ins: "install E cpv utd dtd F w4 = (Inr p, w')"
    by blast
  from mkstemp_Inr[OF ms] have
    F: "F = ?F" and td: "isdir (tmp_root E) t1" and
    Ffr: "get ?FL t1 = None" and
    p1: "put ?FL (File '''') t1 = Some (fs w1)" and
    l1: "unpack_log w1 = unpack_log w"
    by auto
  have wr': "write_chunks ?F req (w1\<lparr>net_log := net_log w1 @ [url]\<rparr>) = (None, w3)"
    using wr F by simp
  from write_chunks_None[OF wr'] have
    p3: "put ?FL (File ?body) (fs w1) = Some (fs w3)" and
    l3: "unpack_log w3 = unpack_log w1"
    by auto
  have k1: "dirs_kept t1 (fs w1)" using dirs_kept_put[OF p1] Ffr by simp
  have "get ?FL (fs w1) = Some (File '''')" using get_put_same[OF p1] .
  then have k3: "dirs_kept (fs w1) (fs w3)" using dirs_kept_put[OF p3] by simp
  have k13: "dirs_kept t1 (fs w3)" using dirs_kept_trans[OF k1 k3] .
  have td3: "isdir (tmp_root E) (fs w3)" using isdir_kept[OF k13 td] .
  have cd3: "isdir cache_dir (fs w3)" using isdir_kept[OF k13 cd] .
  have sF: "\<not> special (tmp_file_name E)" using mkstemp_Inr[OF ms] by simp
  have gF3: "get ?FL (fs w3) = Some (File ?body)" using get_put_same[OF p3] .
  have sF3: "stat ?F (fs w3) = Some (File ?body)" using stat_child[OF td3 sF] gF3 by simp
  from un have u: "cpv = PathStr ?cp" "utd = F" "dtd = None" "w4 = w3"
    by (auto simp: uncompress_def append_suffix_def)
  from install_Inr[OF ins] u F obtain w5 where
    cc: "copy_to_cache E (PathStr ?cp) ?F w3 = (None, w5)" and
    fb: "finally_block (PathStr ?cp) True None ?F w5 = (None, w')" and
    gf: "get_filepath ?cp (fs w') = Inr p"
    by auto
  have "copyfile E ?F ?cp w3 = (None, w5)"
    using cc sF3 by (simp add: copy_to_cache_def isdir_def)
  from copyfile_None[OF this] sF3 have
    nsf: "\<not> samefile ?F ?cp (fs w3)" and
    p5: "put ?L (File ?body) (fs w3) = Some (fs w5)" and
    l5: "unpack_log w5 = unpack_log w3"
    by auto
  have ne: "?L \<noteq> ?FL"
  proof
    assume e: "?L = ?FL"
    have "resolve ?cp (fs w3) = Inr ?L" using resolve_child[OF cd3] nb by (simp add: step_name)
    moreover have "resolve ?F (fs w3) = Inr ?FL"
      using resolve_child[OF td3] sF by (simp add: step_name)
    moreover have "stat ?cp (fs w3) = Some (File ?body)"
      using stat_child[OF cd3 nb] gF3 e by simp
    ultimately show False using nsf sF3 e by (simp add: samefile_def exists_def)
  qed
  have cg: "get (loc cache_dir) t1 \<noteq> None" using cd by (auto simp: isdir_iff)
  have tg: "get (loc (tmp_root E)) t1 \<noteq> None" using td by (auto simp: isdir_iff)
  have ap1: "take (length ?FL) ?L \<noteq> ?FL"
    by (rule apart_fresh_children[OF Ffr tg fr cg ne[symmetric]])
  have ap2: "take (length ?L) ?FL \<noteq> ?L"
    by (rule apart_fresh_children[OF fr cg Ffr tg ne])
  have "get ?L (fs w3) = get ?L t1"
    using get_put_other[OF p3 ap1 ap2] get_put_other[OF p1 ap1 ap2] by simp
  with fr have "get ?L (fs w3) = None" by simp
  then have k5: "dirs_kept (fs w3) (fs w5)" using dirs_kept_put[OF p5] by simp
  from finally_block_success[OF fb] have
    d: "fs w' = del ?FL (fs w5)" and l': "unpack_log w' = unpack_log w5"
    by auto
  have "dirs_kept t1 (fs w5)" using dirs_kept_trans[OF k13 k5] .
  from dirs_kept_del[OF this Ffr] d have k': "dirs_kept t1 (fs w')" by simp
  have cd': "isdir cache_dir (fs w')" using isdir_kept[OF k' cd] .
  have "get ?L (fs w') = get ?L (fs w5)"
    using d get_del_other[OF ap1 ap2] by simp
  with get_put_same[OF p5] have "get ?L (fs w') = Some (File ?body)" by simp
  then have g: "stat ?cp (fs w') = Some (File ?body)" using stat_child[OF cd' nb] by simp
  with gf have "p = ?cp" by (simp add: get_filepath_def isdir_def isfile_def)
  with g l' l5 l3 l1 re_sub_dirs_no_newline[of url] show ?thesis by simp
qed

theorem get_from_cache_no_dot_installs_file_witness:
  "get_from_cache env0 ''http://host/models/data'' [''cache''] world_cached =
     (Inr [''cache'', ''data''],
      \<lparr>fs = Dir [(''tmp'', Dir []),
                 (''cache'', Dir [(''other'', File ''x''), (''data'', File ''abcdef'')])],
       net_log = [''http://host/models/data''], open_fds = 0, unpack_log = []\<rparr>) \<and>
   [''cache'', ''data''] = [''cache''] @ [basename (re_sub_dirs ''http://host/models/data'')] \<and>
   stat [''cache'', ''data'']
     (Dir [(''tmp'', Dir []),
           (''cache'', Dir [(''other'', File ''x''), (''data'', File ''abcdef'')])])
     = Some (File (concat [''abc'', '''', ''def''])) \<and>
   get_from_cache env_plus ''http://host/a+b'' [''cache''] world_cached =
     (Inr [''cache'', ''a+b''],
      \<lparr>fs = Dir [(''tmp'', Dir []),
                 (''cache'', Dir [(''other'', File ''x''), (''a+b'', File ''abcdef'')])],
       net_log = [''http://host/a+b''], open_fds = 0, unpack_log = []\<rparr>) \<and>
   [''cache'', ''a+b''] = [''cache''] @ [basename (re_sub_dirs ''http://host/a+b'')] \<and>
   stat [''cache'', ''a+b'']
     (Dir [(''tmp'', Dir []),
           (''cache'', Dir [(''other'', File ''x''), (''a+b'', File ''abcdef'')])])
     = Some (File (concat [''abc'', '''', ''def'']))"
proof -
  let ?w1 = "\<lparr>fs = Dir [(''tmp'', Dir []),
                 (''cache'', Dir [(''other'', File ''x''), (''data'', File ''abcdef'')])],
       net_log = [''http://host/models/data''], open_fds = 0, unpack_log = []\<rparr>"
  let ?w2 = "\<lparr>fs = Dir [(''tmp'', Dir []),
                 (''cache'', Dir [(''other'', File ''x''), (''a+b'', File ''abcdef'')])],
       net_log = [''http://host/a+b''], open_fds = 0, unpack_log = []\<rparr>"
  let ?req = "\<lparr>status_code = 200, content_length_ok = True,
            chunks = [''abc'', '''', ''def''], stream_breaks = False\<rparr>"
  have run1: "get_from_cache env0 ''http://host/models/data'' [''cache''] world_cached =
     (Inr [''cache'', ''data''], ?w1)"
    by (simp add: run_defs)
  have run2: "get_from_cache env_plus ''http://host/a+b'' [''cache''] world_cached =
     (Inr [''cache'', ''a+b''], ?w2)"
    by (simp add: run_defs)
  have sent1: "net_log ?w1 \<noteq> net_log world_cached" and sent2: "net_log ?w2 \<noteq> net_log world_cached"
    by (simp_all add: world_cached_def)
  have nodot1: "CHR ''.'' \<notin> set (basename (re_sub_dirs ''http://host/models/data''))"
    and nodot2: "CHR ''.'' \<notin> set (basename (re_sub_dirs ''http://host/a+b''))"
    by (simp_all add: re_sub_dirs_def strip_line_def basename_def newline_def)
  have reply1: "http_get env0 ''http://host/models/data'' = Some ?req"
    and reply2: "http_get env_plus ''http://host/a+b'' = Some ?req"
    by (simp_all add: env0_def env_plus_def reply_ok_def)
  from get_from_cache_no_dot_installs_file[OF run1 sent1 nodot1 reply1]
    get_from_cache_no_dot_installs_file[OF run2 sent2 nodot2 reply2] run1 run2
  show ?thesis by simp
qed

subsection \<open>Installing an archive\<close>

lemma extract_entries_fresh:
  "isdir to t \<Longrightarrow> get (loc to) t = Some (Dir acc) \<Longrightarrow> distinct (map fst acc @ map fst es) \<Longrightarrow>
   \<forall>n \<in> fst ` set es. \<not> special n \<Longrightarrow>
   \<exists>t'. extract_entries to es t = Some t' \<and> get (loc to) t' = Some (Dir (acc @ es)) \<and>
        (\<forall>q. take (length (loc to)) q \<noteq> loc to \<and> take (length q) (loc to) \<noteq> q \<longrightarrow>
           get q t' = get q t) \<and>
        dirs_kept t t'"
proof (induction es arbitrary: t acc)
  case Nil
  then show ?case by (simp add: dirs_kept_refl)
next
  case (Cons e es)
  obtain name n where e: "e = (name, n)" by (cases e)
  have s: "\<not> special name" using Cons.prems(4) e by simp
  from put_in_dir[OF Cons.prems(2), of name n] obtain t1 where
    p: "put (loc to @ [name]) n t = Some t1" by blast
  have c: "create (to @ [name]) n t = Some t1"
    using create_child[OF Cons.prems(1) s] p by simp
  have fresh: "name \<notin> fst ` set acc" using Cons.prems(3) e by auto
  then have "get (loc to @ [name]) t = None"
    using get_child[OF Cons.prems(2), of name] by (simp add: map_of_eq_None_iff)
  then have k1: "dirs_kept t t1" using dirs_kept_put[OF p] by simp
  have d1: "isdir to t1" using isdir_kept[OF k1 Cons.prems(1)] .
  have g1: "get (loc to) t1 = Some (Dir (acc @ [(name, n)]))"
    using get_put_child[OF p Cons.prems(2)] fresh by (simp add: update_fresh)
  have d: "distinct (map fst (acc @ [(name, n)]) @ map fst es)"
    using Cons.prems(3) e by auto
  have sp: "\<forall>n \<in> fst ` set es. \<not> special n" using Cons.prems(4) by simp
  from Cons.IH[OF d1 g1 d sp] obtain t' where
    r: "extract_entries to es t1 = Some t'"
    "get (loc to) t' = Some (Dir ((acc @ [(name, n)]) @ es))"
    "\<forall>q. take (length (loc to)) q \<noteq> loc to \<and> take (length q) (loc to) \<noteq> q \<longrightarrow>
       get q t' = get q t1"
    "dirs_kept t1 t'"
    by blast
  have other: "get q t1 = get q t"
    if "take (length (loc to)) q \<noteq> loc to" "take (length q) (loc to) \<noteq> q" for q
  proof -
    have "take (length (loc to @ [name])) q \<noteq> loc to @ [name] \<and>
          take (length q) (loc to @ [name]) \<noteq> q"
      using apart_extend[OF that] .
    then show ?thesis using get_put_other[OF p] by blast
  qed
  have "dirs_kept t t'" using dirs_kept_trans[OF k1 r(4)] .
  with c r other e show ?case by auto
qed

lemma extract_entries_names:
  "extract_entries to es t = Some t' \<Longrightarrow> \<forall>n \<in> fst ` set es. \<not> special n"
proof (induction es arbitrary: t)
  case Nil
  then show ?case by simp
next
  case (Cons e es)
  obtain name n where e: "e = (name, n)" by (cases e)
  from Cons.prems e obtain t1 where
    c: "create (to @ [name]) n t = Some t1" and r: "extract_entries to es t1 = Some t'"
    by (auto split: option.splits)
  from create_Some[OF c] Cons.IH[OF r] e show ?case by simp
qed

lemma single_dir_root_entries:
  assumes "isdir T t" "get (loc T) t = Some (Dir es)" "\<forall>n \<in> fst ` set es. \<not> special n"
  shows "isdir (single_dir_root T (map fst es) t) t \<and>
         get (loc (single_dir_root T (map fst es) t)) t =
           Some (Dir (case es of [(d, Dir sub)] \<Rightarrow> sub | _ \<Rightarrow> es)) \<and>
         (\<exists>r. loc (single_dir_root T (map fst es) t) = loc T @ r) \<and>
         single_dir_root T (map fst es) t =
           (case es of [(d, Dir sub)] \<Rightarrow> T @ [d] | _ \<Rightarrow> T)"
proof (cases es)
  case Nil
  with assms show ?thesis by (simp add: single_dir_root_def)
next
  case (Cons e es')
  obtain d n where e: "e = (d, n)" by (cases e)
  show ?thesis
  proof (cases es')
    case Nil
    have s: "\<not> special d" using assms(3) Cons e by simp
    have g: "get (loc T @ [d]) t = Some n" using get_child[OF assms(2), of d] Cons e Nil by simp
    have st: "stat (T @ [d]) t = Some n" using stat_child[OF assms(1) s] g by simp
    show ?thesis
    proof (cases n)
      case (File x)
      with assms Cons e Nil st show ?thesis by (simp add: single_dir_root_def isdir_def)
    next
      case (Dir sub)
      have "isdir (T @ [d]) t" using st Dir by (simp add: isdir_def)
      moreover have "loc (T @ [d]) = loc T @ [d]" using s by (simp add: loc_snoc step_name)
      ultimately show ?thesis
        using assms Cons e Nil g Dir by (simp add: single_dir_root_def)
    qed
  next
    case c2: (Cons e2 es2)
    with assms Cons e show ?thesis
      by (simp add: single_dir_root_def split: node.splits list.splits)
  qed
qed

lemma extract_with_None:
  assumes "extract_with decode F T w = (None, w')"
  shows "\<exists>bytes es. stat F (fs w) = Some (File bytes) \<and> decode bytes = Some es \<and>
           extract_entries T es (fs w) = Some (fs w') \<and> net_log w' = net_log w"
  using assms
  by (auto simp: extract_with_def Let_def split: option.splits node.splits)

lemma uncompress_archive_Inr:
  assumes "uncompress E sfx F cp w = (Inr (cpv, utd, dtd), w')"
    and "sfx = ''.zip'' \<or> sfx = ''.tar.gz''"
  shows "\<exists>T w1 w2 filenames t.
           mkdtemp E w = (Inr T, w1) \<and>
           extract_with (if sfx = ''.zip'' then unzip E else untar_gz E) F T w1 = (None, w2) \<and>
           listdir T (fs w2) = Inr filenames \<and> path_mkdir cp (fs w2) = Inr t \<and>
           cpv = PathObj cp \<and> utd = single_dir_root T filenames (fs w2) \<and>
           dtd = Some T \<and> w' = w2\<lparr>fs := t\<rparr>"
proof -
  let ?ex = "\<lambda>T w1. if sfx = ''.zip'' then unzip_file E F T w1 else untar_gz_file E F T w1"
  have u: "uncompress E sfx F cp w =
    (case mkdtemp E w of
       (Inl e, w1) \<Rightarrow> (Inl e, w1)
     | (Inr T, w1) \<Rightarrow>
         (case ?ex T w1 of
            (Some e, w2) \<Rightarrow> (Inl e, w2)
          | (None, w2) \<Rightarrow>
              (case listdir T (fs w2) of
                 Inl e \<Rightarrow> (Inl e, w2)
               | Inr filenames \<Rightarrow>
                   (case path_mkdir cp (fs w2) of
                      Inl e \<Rightarrow> (Inl e, w2)
                    | Inr t \<Rightarrow>
                        (Inr (PathObj cp, single_dir_root T filenames (fs w2), Some T),
                         w2\<lparr>fs := t\<rparr>)))))"
    using assms(2) unfolding uncompress_def by (simp only: if_True)
  obtain T w1 where m: "mkdtemp E w = (Inr T, w1)"
    using assms(1) unfolding u by (cases "mkdtemp E w") (auto split: sum.splits)
  obtain w2 where x: "?ex T w1 = (None, w2)"
    using assms(1) m unfolding u by (cases "?ex T w1") (auto split: option.splits)
  obtain filenames where l: "listdir T (fs w2) = Inr filenames"
    using assms(1) m x unfolding u by (cases "listdir T (fs w2)") auto
  obtain t where k: "path_mkdir cp (fs w2) = Inr t"
    using assms(1) m x l unfolding u by (cases "path_mkdir cp (fs w2)") auto
  have x': "extract_with (if sfx = ''.zip'' then unzip E else untar_gz E) F T w1 = (None, w2)"
    using x by (simp add: unzip_file_def untar_gz_file_def split: if_splits)
  from assms(1) m x l k have "cpv = PathObj cp \<and> utd = single_dir_root T filenames (fs w2) \<and>
           dtd = Some T \<and> w' = w2\<lparr>fs := t\<rparr>"
    unfolding u by auto
  with m x' l k show ?thesis by blast
qed

text \<open>A copy loop that returns has met no fault and no name it could not create.\<close>

lemma copy_children_needs:
  "copy_children E (PathObj cp) root names w = (None, w') \<Longrightarrow>
   \<forall>n \<in> set names. \<not> special n \<and> copy_fault E (cp @ [n]) = None"
proof (induction names arbitrary: w)
  case Nil
  then show ?case by simp
next
  case (Cons n ns)
  let ?src = "root @ [n]" and ?dst = "cp @ [n]"
  let ?step = "if isdir ?src (fs w) then copytree E ?src ?dst w else copyfile E ?src ?dst w"
  obtain w1 where st: "?step = (None, w1)" and
    rest: "copy_children E (PathObj cp) root ns w1 = (None, w')"
    using Cons.prems(1) by (cases ?step) (auto split: option.splits if_splits)
  have "\<not> special n \<and> copy_fault E (cp @ [n]) = None"
  proof (cases "isdir ?src (fs w)")
    case True
    with st have "copytree E ?src ?dst w = (None, w1)" by simp
    from copytree_None[OF this] show ?thesis by simp
  next
    case False
    with st have "copyfile E ?src ?dst w = (None, w1)" by simp
    from copyfile_None[OF this] show ?thesis by simp
  qed
  with Cons.IH[OF rest] show ?case by simp
qed

text \<open>
  The copy loop between two directories that lie apart, for names the destination does
  not hold yet: it returns, and the destination has gained the entries of those names.
\<close>

lemma copy_children_ok:
  assumes "isdir root (fs w)" "isdir cp (fs w)"
    and "get (loc root) (fs w) = Some (Dir R)" "get (loc cp) (fs w) = Some (Dir acc)"
    and "take (length (loc cp)) (loc root) \<noteq> loc cp" "take (length (loc root)) (loc cp) \<noteq> loc root"
    and "set names \<subseteq> fst ` set R" "distinct (map fst acc @ names)"
    and "\<forall>n \<in> set names. \<not> special n \<and> copy_fault E (cp @ [n]) = None"
  shows "\<exists>w'. copy_children E (PathObj cp) root names w = (None, w') \<and>
           get (loc cp) (fs w') = Some (Dir (acc @ map (\<lambda>n. (n, the (map_of R n))) names)) \<and>
           (\<forall>q. take (length (loc cp)) q \<noteq> loc cp \<and> take (length q) (loc cp) \<noteq> q \<longrightarrow>
              get q (fs w') = get q (fs w)) \<and>
           dirs_kept (fs w) (fs w') \<and>
           net_log w' = net_log w \<and> unpack_log w' = unpack_log w \<and> open_fds w' = open_fds w"
  using assms
proof (induction names arbitrary: w acc)
  case Nil
  then show ?case by (simp add: dirs_kept_refl)
next
  case (Cons n ns)
  let ?src = "root @ [n]" and ?dst = "cp @ [n]"
  have s: "\<not> special n" and cf: "copy_fault E ?dst = None" using Cons.prems(9) by auto
  from Cons.prems(7) obtain node where node: "map_of R n = Some node"
    by (cases "map_of R n") (auto simp: map_of_eq_None_iff)
  have gs: "stat ?src (fs w) = Some node"
    using stat_child[OF Cons.prems(1) s] get_child[OF Cons.prems(3), of n] node by simp
  have fresh: "n \<notin> fst ` set acc" using Cons.prems(8) by auto
  then have gd0: "get (loc cp @ [n]) (fs w) = None"
    using get_child[OF Cons.prems(4), of n] by (simp add: map_of_eq_None_iff)
  then have gd: "stat ?dst (fs w) = None" using stat_child[OF Cons.prems(2) s] by simp
  from put_in_dir[OF Cons.prems(4), of n node] obtain t1 where
    pt: "put (loc cp @ [n]) node (fs w) = Some t1" by blast
  have cr: "create ?dst node (fs w) = Some t1" using create_child[OF Cons.prems(2) s] pt by simp
  have st: "(if isdir ?src (fs w) then copytree E ?src ?dst w else copyfile E ?src ?dst w)
      = (None, w\<lparr>fs := t1\<rparr>)"
  proof (cases node)
    case (File x)
    with gs gd cf cr show ?thesis
      by (simp add: isdir_def copyfile_def samefile_def exists_def)
  next
    case (Dir es)
    with gs gd cf cr show ?thesis
      by (simp add: isdir_def copytree_def exists_def)
  qed
  have k1: "dirs_kept (fs w) t1" using dirs_kept_put[OF pt] gd0 by simp
  have g1: "get (loc cp) t1 = Some (Dir (acc @ [(n, node)]))"
    using get_put_child[OF pt Cons.prems(4)] fresh by (simp add: update_fresh)
  have other: "get q t1 = get q (fs w)"
    if "take (length (loc cp)) q \<noteq> loc cp" "take (length q) (loc cp) \<noteq> q" for q
  proof -
    have "take (length (loc cp @ [n])) q \<noteq> loc cp @ [n] \<and>
          take (length q) (loc cp @ [n]) \<noteq> q"
      using apart_extend[OF that] .
    then show ?thesis using get_put_other[OF pt] by blast
  qed
  have g2: "get (loc root) t1 = Some (Dir R)"
    using other[OF Cons.prems(5) Cons.prems(6)] Cons.prems(3) by simp
  have d: "distinct (map fst (acc @ [(n, node)]) @ ns)" using Cons.prems(8) by auto
  have sub: "set ns \<subseteq> fst ` set R" using Cons.prems(7) by auto
  have nf: "\<forall>n \<in> set ns. \<not> special n \<and> copy_fault E (cp @ [n]) = None"
    using Cons.prems(9) by simp
  have i1: "isdir root (fs (w\<lparr>fs := t1\<rparr>))" using isdir_kept[OF k1 Cons.prems(1)] by simp
  have i2: "isdir cp (fs (w\<lparr>fs := t1\<rparr>))" using isdir_kept[OF k1 Cons.prems(2)] by simp
  from Cons.IH[of "w\<lparr>fs := t1\<rparr>" "acc @ [(n, node)]"] i1 i2 g2 g1 Cons.prems(5,6) sub d nf
  obtain w' where
    r: "copy_children E (PathObj cp) root ns (w\<lparr>fs := t1\<rparr>) = (None, w')"
    "get (loc cp) (fs w') = Some (Dir ((acc @ [(n, node)]) @ map (\<lambda>n. (n, the (map_of R n))) ns))"
    "\<forall>q. take (length (loc cp)) q \<noteq> loc cp \<and> take (length q) (loc cp) \<noteq> q \<longrightarrow>
       get q (fs w') = get q t1"
    "dirs_kept t1 (fs w')"
    "net_log w' = net_log w" "unpack_log w' = unpack_log w" "open_fds w' = open_fds w"
    by auto
  have "copy_children E (PathObj cp) root (n # ns) w = (None, w')"
    using st r(1) by simp
  moreover have "dirs_kept (fs w) (fs w')" using dirs_kept_trans[OF k1 r(4)] .
  ultimately show ?case using r other node by auto
qed

text \<open>
  A fetch that sends the request, receives an archive and returns a path has installed
  the entries of the extraction root: the entries of the sole top-level directory of the
  archive, or else its top-level entries.
\<close>

lemma archive_fetch_content:
  assumes run: "get_from_cache E url cache_dir w = (Inr p, w')"
    and sent: "net_log w' \<noteq> net_log w"
    and reply: "http_get E url = Some req"
    and name: "split_filename_suffix (re_sub_dirs url) = (dir_name, sfx)"
    and dec: "(sfx = ''.zip'' \<and> unzip E (concat (chunks req)) = Some es) \<or>
              (sfx = ''.tar.gz'' \<and> untar_gz E (concat (chunks req)) = Some es)"
    and dist: "distinct (map fst es)"
    and dist_inner: "\<forall>d sub. es = [(d, Dir sub)] \<longrightarrow> distinct (map fst sub)"
  shows "stat (cache_dir @ [dir_name]) (fs w') =
           Some (Dir (case es of [(d, Dir sub)] \<Rightarrow> sub | _ \<Rightarrow> es))"
proof -
  let ?cp = "cache_dir @ [dir_name]"
  let ?L = "loc cache_dir @ [dir_name]"
  let ?F = "tmp_root E @ [tmp_file_name E]"
  let ?FL = "loc (tmp_root E) @ [tmp_file_name E]"
  let ?T = "tmp_root E @ [tmp_dir_name E]"
  let ?TL = "loc (tmp_root E) @ [tmp_dir_name E]"
  let ?body = "concat (chunks req)"
  define R where "R = (case es of [(d, Dir sub)] \<Rightarrow> sub | _ \<Rightarrow> es)"
  have Rcases: "(\<exists>d sub. es = [(d, Dir sub)] \<and> R = sub) \<or>
                ((\<nexists>d sub. es = [(d, Dir sub)]) \<and> R = es)"
    unfolding R_def by (simp split: list.splits node.splits prod.splits)
  have distR: "distinct (map fst R)"
    using Rcases dist dist_inner by blast
  have arch: "sfx = ''.zip'' \<or> sfx = ''.tar.gz''" using dec by auto
  have decode: "(if sfx = ''.zip'' then unzip E else untar_gz E) ?body = Some es"
    using dec by auto
  \<comment> \<open>the lookup misses\<close>
  from get_from_cache_miss_path[OF run sent] name obtain t1 where
    cd: "isdir cache_dir t1" and nb: "\<not> special dir_name" and
    fr: "get ?L t1 = None" and
    dl: "download E url sfx ?cp (w\<lparr>fs := t1\<rparr>) = (Inr p, w')"
    by auto
  have lcp: "loc ?cp = ?L" using loc_child[OF nb] .
  \<comment> \<open>the download\<close>
  from download_Inr[OF dl reply] obtain F w1 w3 cpv utd dtd w4 where
    ms: "mkstemp E (w\<lparr>fs := t1\<rparr>) = (Inr F, w1)" and
    wr: "write_chunks F req (w1\<lparr>net_log := net_log w1 @ [url]\<rparr>) = (None, w3)" and
    un: "uncompress E sfx F ?cp w3 = (Inr (cpv, utd, dtd), w4)" and
    ins: "install E cpv utd dtd F w4 = (Inr p, w')"
    by blast
  from mkstemp_Inr[OF ms] have
    F: "F = ?F" and td: "isdir (tmp_root E) t1" and sF: "\<not> special (tmp_file_name E)" and
    Ffr: "get ?FL t1 = None" and p1: "put ?FL (File '''') t1 = Some (fs w1)"
    by auto
  have wr': "write_chunks ?F req (w1\<lparr>net_log := net_log w1 @ [url]\<rparr>) = (None, w3)"
    using wr F by simp
  from write_chunks_None[OF wr'] have p3: "put ?FL (File ?body) (fs w1) = Some (fs w3)"
    by auto
  have k1: "dirs_kept t1 (fs w1)" using dirs_kept_put[OF p1] Ffr by simp
  have "get ?FL (fs w1) = Some (File '''')" using get_put_same[OF p1] .
  then have k3: "dirs_kept (fs w1) (fs w3)" using dirs_kept_put[OF p3] by simp
  have k13: "dirs_kept t1 (fs w3)" using dirs_kept_trans[OF k1 k3] .
  have gF3: "get ?FL (fs w3) = Some (File ?body)" using get_put_same[OF p3] .
  \<comment> \<open>the extraction\<close>
  from uncompress_archive_Inr[OF un arch] F obtain T w5 w6 filenames t7 where
    md: "mkdtemp E w3 = (Inr T, w5)" and
    ex: "extract_with (if sfx = ''.zip'' then unzip E else untar_gz E) ?F T w5 = (None, w6)" and
    ls: "listdir T (fs w6) = Inr filenames" and
    mc: "path_mkdir ?cp (fs w6) = Inr t7" and
    res: "cpv = PathObj ?cp" "utd = single_dir_root T filenames (fs w6)" "dtd = Some T"
      "w4 = w6\<lparr>fs := t7\<rparr>"
    by auto
  from mkdtemp_Inr[OF md] have
    T: "T = ?T" and sT: "\<not> special (tmp_dir_name E)" and
    Tfr3: "get ?TL (fs w3) = None" and p5: "put ?TL (Dir []) (fs w3) = Some (fs w5)"
    by auto
  have lT: "loc ?T = ?TL" using loc_child[OF sT] .
  have names: "tmp_file_name E \<noteq> tmp_dir_name E" using gF3 Tfr3 by auto
  have FT: "take (length ?FL) ?TL \<noteq> ?FL" using apart_siblings[OF names] .
  have TF: "take (length ?TL) ?FL \<noteq> ?TL" using apart_siblings[OF names[symmetric]] .
  have Tfr: "get ?TL t1 = None"
    using get_put_other[OF p3 FT TF] get_put_other[OF p1 FT TF] Tfr3 by simp
  have k5: "dirs_kept (fs w3) (fs w5)" using dirs_kept_put[OF p5] Tfr3 by simp
  have k15: "dirs_kept t1 (fs w5)" using dirs_kept_trans[OF k13 k5] .
  have td5: "isdir (tmp_root E) (fs w5)" using isdir_kept[OF k15 td] .
  have gF5: "get ?FL (fs w5) = Some (File ?body)"
    using get_put_other[OF p5 TF FT] gF3 by simp
  have gT5: "get ?TL (fs w5) = Some (Dir [])" using get_put_same[OF p5] .
  have iT5: "isdir ?T (fs w5)" using isdir_child[OF td5 sT] gT5 by simp
  have sF5: "stat ?F (fs w5) = Some (File ?body)" using stat_child[OF td5 sF] gF5 by simp
  from extract_with_None[OF ex] sF5 decode T have
    ee: "extract_entries ?T es (fs w5) = Some (fs w6)" by auto
  have nes: "\<forall>n \<in> fst ` set es. \<not> special n" using extract_entries_names[OF ee] .
  from extract_entries_fresh[OF iT5, of "[]" es] gT5 lT dist nes ee have
    gT6: "get ?TL (fs w6) = Some (Dir es)" and
    oth6: "\<And>q. take (length ?TL) q \<noteq> ?TL \<Longrightarrow> take (length q) ?TL \<noteq> q \<Longrightarrow>
             get q (fs w6) = get q (fs w5)" and
    k6: "dirs_kept (fs w5) (fs w6)"
    by auto
  have k16: "dirs_kept t1 (fs w6)" using dirs_kept_trans[OF k15 k6] .
  have cd6: "isdir cache_dir (fs w6)" using isdir_kept[OF k16 cd] .
  have iT6: "isdir ?T (fs w6)" using isdir_kept[OF k6 iT5] .
  have gF6: "get ?FL (fs w6) = Some (File ?body)" using oth6[OF TF FT] gF5 by simp
  have fn: "filenames = map fst es"
    using ls stat_isdir[OF iT6] gT6 lT T by (simp add: listdir_def)
  define root where "root = single_dir_root ?T (map fst es) (fs w6)"
  from single_dir_root_entries[OF iT6, of es] gT6 lT nes have
    iroot6: "isdir root (fs w6)" and
    groot6: "get (loc root) (fs w6) = Some (Dir R)" and
    rootloc: "\<exists>r. loc root = ?TL @ r"
    unfolding R_def root_def by auto
  from rootloc obtain r where rr: "loc root = ?TL @ r" by blast
  \<comment> \<open>the installation\<close>
  from install_Inr[OF ins] res T fn root_def obtain w8 where
    cc: "copy_to_cache E (PathObj ?cp) root (w6\<lparr>fs := t7\<rparr>) = (None, w8)" and
    fb: "finally_block (PathObj ?cp) True (Some ?T) ?F w8 = (None, w')" and
    gf: "get_filepath ?cp (fs w') = Inr p"
    using F by auto
  from finally_block_success[OF fb] obtain w9 where
    rm: "rmtree ?T w8 = (None, w9)" and d': "fs w' = del ?FL (fs w9)"
    by auto
  from rmtree_None[OF rm] have d9: "fs w9 = del ?TL (fs w8)" by auto
  \<comment> \<open>the cache entry is neither the scratch file nor the scratch directory\<close>
  have cpF: "?L \<noteq> ?FL"
  proof
    assume "?L = ?FL"
    with gF6 stat_child[OF cd6 nb] have "stat ?cp (fs w6) = Some (File ?body)" by simp
    from path_mkdir_file[OF this] mc show False by simp
  qed
  have cpT: "?L \<noteq> ?TL"
  proof
    assume e: "?L = ?TL"
    have "get ?TL (fs w') = get ?TL (del ?TL (fs w8))"
      using d' d9 get_del_other[OF FT TF] by simp
    then have "get (loc ?cp) (fs w') = None" using e lcp get_del_same[of ?TL] by simp
    from stat_none[OF this] gf show False by (simp add: get_filepath_def isdir_def isfile_def)
  qed
  have cg: "get (loc cache_dir) t1 \<noteq> None" using cd by (auto simp: isdir_iff)
  have tg: "get (loc (tmp_root E)) t1 \<noteq> None" using td by (auto simp: isdir_iff)
  have a1: "take (length ?L) ?FL \<noteq> ?L" by (rule apart_fresh_children[OF fr cg Ffr tg cpF])
  have a2: "take (length ?FL) ?L \<noteq> ?FL"
    by (rule apart_fresh_children[OF Ffr tg fr cg cpF[symmetric]])
  have a3: "take (length ?L) ?TL \<noteq> ?L" by (rule apart_fresh_children[OF fr cg Tfr tg cpT])
  have a4: "take (length ?TL) ?L \<noteq> ?TL"
    by (rule apart_fresh_children[OF Tfr tg fr cg cpT[symmetric]])
  have a5: "take (length (loc root)) ?L \<noteq> loc root \<and> take (length ?L) (loc root) \<noteq> ?L"
    unfolding rr by (rule apart_extend[OF a4 a3])
  \<comment> \<open>the file system before the copy\<close>
  have "get ?L (fs w6) = get ?L t1"
    using oth6[OF a4 a3] get_put_other[OF p5 a4 a3] get_put_other[OF p3 a2 a1]
      get_put_other[OF p1 a2 a1] by simp
  with fr have fr6: "get ?L (fs w6) = None" by simp
  from path_mkdir_child[OF cd6 nb fr6] mc have p7: "put ?L (Dir []) (fs w6) = Some t7"
    by auto
  have gcp7: "get ?L t7 = Some (Dir [])" using get_put_same[OF p7] .
  have k7: "dirs_kept (fs w6) t7" using dirs_kept_put[OF p7] fr6 by simp
  have cd7: "isdir cache_dir t7" using isdir_kept[OF k7 cd6] .
  have icp7: "isdir ?cp t7" using isdir_child[OF cd7 nb] gcp7 by simp
  have iroot7: "isdir root t7" using isdir_kept[OF k7 iroot6] .
  have groot7: "get (loc root) t7 = Some (Dir R)"
    using get_put_other[OF p7, of "loc root"] a5 groot6 by simp
  \<comment> \<open>the copy\<close>
  have cc': "copy_children E (PathObj ?cp) root (map fst R) (w6\<lparr>fs := t7\<rparr>) = (None, w8)"
    using cc iroot7 stat_isdir[OF iroot7] groot7 by (simp add: copy_to_cache_def listdir_def)
  have nR: "\<forall>n \<in> set (map fst R). \<not> special n \<and> copy_fault E (?cp @ [n]) = None"
    using copy_children_needs[OF cc'] .
  from copy_children_ok[of root "w6\<lparr>fs := t7\<rparr>" ?cp R "[]" "map fst R" E]
    iroot7 icp7 groot7 gcp7 lcp a5 distR nR cc'
  have "get ?L (fs w8) = Some (Dir (map (\<lambda>n. (n, the (map_of R n))) (map fst R)))" and
    k8: "dirs_kept t7 (fs w8)"
    by auto
  then have gcp8: "get ?L (fs w8) = Some (Dir R)" using entries_of_names[OF distR] by simp
  \<comment> \<open>the cleanup leaves the cache entry alone\<close>
  have "get ?L (fs w') = get ?L (fs w8)"
    using d' d9 get_del_other[OF a2 a1] get_del_other[OF a4 a3] by simp
  with gcp8 have g': "get ?L (fs w') = Some (Dir R)" by simp
  have "dirs_kept t1 (fs w8)"
    using dirs_kept_trans[OF dirs_kept_trans[OF k16 k7] k8] .
  from dirs_kept_del[OF dirs_kept_del[OF this Tfr] Ffr] d' d9
  have "dirs_kept t1 (fs w')" by simp
  from isdir_kept[OF this cd] have "isdir cache_dir (fs w')" .
  from stat_child[OF this nb] g' show ?thesis unfolding R_def by simp
qed

text \<open>
  A fetch returns, having sent the request, when the lookup misses, the scratch names are
  free and name neither each other nor the cache entry, the server answers 200 with a
  stream that does not break, the archive decodes to entries with distinct names, and no
  copy fails.
\<close>

lemma archive_fetch_returns:
  assumes reply: "http_get E url = Some req"
    and name: "split_filename_suffix (re_sub_dirs url) = (dir_name, sfx)"
    and dec: "(sfx = ''.zip'' \<and> unzip E (concat (chunks req)) = Some es) \<or>
              (sfx = ''.tar.gz'' \<and> untar_gz E (concat (chunks req)) = Some es)"
    and dist: "distinct (map fst es)"
    and dist_inner: "\<forall>d sub. es = [(d, Dir sub)] \<longrightarrow> distinct (map fst sub)"
    and ok: "status_code req = 200" "content_length_ok req" "\<not> stream_breaks req"
    and nes: "\<forall>n \<in> fst ` set es. \<not> special n"
    and nin: "\<forall>d sub. es = [(d, Dir sub)] \<longrightarrow> (\<forall>n \<in> fst ` set sub. \<not> special n)"
    and nf: "\<forall>dst. copy_fault E dst = None"
    and mk: "path_mkdir cache_dir (fs w) = Inr t1"
    and ma: "match_file E dir_name cache_dir t1 = Inr ''''"
    and miss: "\<not> exists (child cache_dir dir_name) t1"
    and td: "isdir (tmp_root E) t1"
    and Fnew: "\<not> exists (tmp_root E @ [tmp_file_name E]) t1"
    and Tnew: "\<not> exists (tmp_root E @ [tmp_dir_name E]) t1"
    and names: "tmp_file_name E \<noteq> tmp_dir_name E"
    and r1: "resolve (cache_dir @ [dir_name]) t1 \<noteq> resolve (tmp_root E @ [tmp_file_name E]) t1"
    and r2: "resolve (cache_dir @ [dir_name]) t1 \<noteq> resolve (tmp_root E @ [tmp_dir_name E]) t1"
  shows "\<exists>p w'. get_from_cache E url cache_dir w = (Inr p, w') \<and> net_log w' \<noteq> net_log w"
proof -
  let ?cp = "cache_dir @ [dir_name]"
  let ?L = "loc cache_dir @ [dir_name]"
  let ?F = "tmp_root E @ [tmp_file_name E]"
  let ?FL = "loc (tmp_root E) @ [tmp_file_name E]"
  let ?T = "tmp_root E @ [tmp_dir_name E]"
  let ?TL = "loc (tmp_root E) @ [tmp_dir_name E]"
  let ?body = "concat (chunks req)"
  let ?decode = "if sfx = ''.zip'' then unzip E else untar_gz E"
  define R where "R = (case es of [(d, Dir sub)] \<Rightarrow> sub | _ \<Rightarrow> es)"
  have Rcases: "(\<exists>d sub. es = [(d, Dir sub)] \<and> R = sub) \<or>
                ((\<nexists>d sub. es = [(d, Dir sub)]) \<and> R = es)"
    unfolding R_def by (simp split: list.splits node.splits prod.splits)
  have distR: "distinct (map fst R)"
    using Rcases dist dist_inner by blast
  have nR: "\<forall>n \<in> fst ` set R. \<not> special n"
    using Rcases nes nin by blast
  have arch: "sfx = ''.zip'' \<or> sfx = ''.tar.gz''" using dec by auto
  have decode: "?decode ?body = Some es" using dec by auto
  \<comment> \<open>the state after the lookup\<close>
  have cd: "isdir cache_dir t1" using path_mkdir_Inr[OF mk] by simp
  from child_fresh[OF cd miss] have
    ch: "child cache_dir dir_name = ?cp" and nb: "\<not> special dir_name" and fr: "get ?L t1 = None"
    by auto
  have lcp: "loc ?cp = ?L" using loc_child[OF nb] .
  have sF: "\<not> special (tmp_file_name E)" using exists_special_child[OF td] Fnew by blast
  have sT: "\<not> special (tmp_dir_name E)" using exists_special_child[OF td] Tnew by blast
  have lT: "loc ?T = ?TL" using loc_child[OF sT] .
  have Ffr: "get ?FL t1 = None" using Fnew stat_child[OF td sF] by (simp add: exists_def)
  have Tfr: "get ?TL t1 = None" using Tnew stat_child[OF td sT] by (simp add: exists_def)
  have cpF: "?L \<noteq> ?FL" using r1 resolve_child[OF cd] resolve_child[OF td] nb sF
    by (auto simp: step_name)
  have cpT: "?L \<noteq> ?TL" using r2 resolve_child[OF cd] resolve_child[OF td] nb sT
    by (auto simp: step_name)
  have FT: "take (length ?FL) ?TL \<noteq> ?FL" using apart_siblings[OF names] .
  have TF: "take (length ?TL) ?FL \<noteq> ?TL" using apart_siblings[OF names[symmetric]] .
  have cg: "get (loc cache_dir) t1 \<noteq> None" using cd by (auto simp: isdir_iff)
  obtain tes where tge: "get (loc (tmp_root E)) t1 = Some (Dir tes)"
    using td by (auto simp: isdir_iff)
  then have tg: "get (loc (tmp_root E)) t1 \<noteq> None" by simp
  have a1: "take (length ?L) ?FL \<noteq> ?L" by (rule apart_fresh_children[OF fr cg Ffr tg cpF])
  have a2: "take (length ?FL) ?L \<noteq> ?FL"
    by (rule apart_fresh_children[OF Ffr tg fr cg cpF[symmetric]])
  have a3: "take (length ?L) ?TL \<noteq> ?L" by (rule apart_fresh_children[OF fr cg Tfr tg cpT])
  have a4: "take (length ?TL) ?L \<noteq> ?TL"
    by (rule apart_fresh_children[OF Tfr tg fr cg cpT[symmetric]])
  have start: "get_from_cache E url cache_dir w = download E url sfx ?cp (w\<lparr>fs := t1\<rparr>)"
    using mk ma name miss ch by (simp add: get_from_cache_def Let_def)
  \<comment> \<open>the scratch file\<close>
  from put_in_dir[OF tge, of "tmp_file_name E" "File ''''"] obtain t2 where
    p1: "put ?FL (File '''') t1 = Some t2" by blast
  define w2 where "w2 = w\<lparr>fs := t2, open_fds := Suc (open_fds w)\<rparr>"
  have ms: "mkstemp E (w\<lparr>fs := t1\<rparr>) = (Inr ?F, w2)"
    using Fnew create_child[OF td sF] p1 by (simp add: mkstemp_def Let_def w2_def)
  have k1: "dirs_kept t1 t2" using dirs_kept_put[OF p1] Ffr by simp
  have td2: "isdir (tmp_root E) t2" using isdir_kept[OF k1 td] .
  have gF2: "get ?FL t2 = Some (File '''')" using get_put_same[OF p1] .
  from td2 obtain tes2 where "get (loc (tmp_root E)) t2 = Some (Dir tes2)"
    by (auto simp: isdir_iff)
  from put_in_dir[OF this, of "tmp_file_name E" "File ?body"] obtain t3 where
    p3: "put ?FL (File ?body) t2 = Some t3" by blast
  define w3 where "w3 = w2\<lparr>net_log := net_log w2 @ [url], fs := t3\<rparr>"
  have wr: "write_chunks ?F req (w2\<lparr>net_log := net_log w2 @ [url]\<rparr>) = (None, w3)"
    using ok(3) stat_child[OF td2 sF] gF2 create_child[OF td2 sF] p3
    by (simp add: write_chunks_def isdir_def concat_nonempty_chunks w3_def w2_def)
  have k3: "dirs_kept t2 t3" using dirs_kept_put[OF p3] gF2 by simp
  have k13: "dirs_kept t1 t3" using dirs_kept_trans[OF k1 k3] .
  have td3: "isdir (tmp_root E) t3" using isdir_kept[OF k13 td] .
  have gF3: "get ?FL t3 = Some (File ?body)" using get_put_same[OF p3] .
  \<comment> \<open>the scratch directory and the extraction\<close>
  have Tfr3: "get ?TL t3 = None"
    using get_put_other[OF p3 FT TF] get_put_other[OF p1 FT TF] Tfr by simp
  from td3 obtain tes3 where "get (loc (tmp_root E)) t3 = Some (Dir tes3)"
    by (auto simp: isdir_iff)
  from put_in_dir[OF this, of "tmp_dir_name E" "Dir []"] obtain t5 where
    p5: "put ?TL (Dir []) t3 = Some t5" by blast
  have md: "mkdtemp E w3 = (Inr ?T, w3\<lparr>fs := t5\<rparr>)"
    using stat_child[OF td3 sT] Tfr3 create_child[OF td3 sT] p5
    by (simp add: mkdtemp_def Let_def exists_def w3_def)
  have k5: "dirs_kept t3 t5" using dirs_kept_put[OF p5] Tfr3 by simp
  have k15: "dirs_kept t1 t5" using dirs_kept_trans[OF k13 k5] .
  have td5: "isdir (tmp_root E) t5" using isdir_kept[OF k15 td] .
  have gF5: "get ?FL t5 = Some (File ?body)"
    using get_put_other[OF p5 TF FT] gF3 by simp
  have gT5: "get ?TL t5 = Some (Dir [])" using get_put_same[OF p5] .
  have iT5: "isdir ?T t5" using isdir_child[OF td5 sT] gT5 by simp
  have sF5: "stat ?F t5 = Some (File ?body)" using stat_child[OF td5 sF] gF5 by simp
  from extract_entries_fresh[OF iT5, of "[]" es] gT5 lT dist nes obtain t6 where
    ee: "extract_entries ?T es t5 = Some t6" and
    gT6: "get ?TL t6 = Some (Dir es)" and
    oth6: "\<And>q. take (length ?TL) q \<noteq> ?TL \<Longrightarrow> take (length q) ?TL \<noteq> q \<Longrightarrow>
             get q t6 = get q t5" and
    k6: "dirs_kept t5 t6"
    by auto
  define w6 where "w6 = w3\<lparr>fs := t6, unpack_log := unpack_log w3 @ [?F]\<rparr>"
  have ex: "extract_with ?decode ?F ?T (w3\<lparr>fs := t5\<rparr>) = (None, w6)"
    using sF5 decode ee by (simp add: extract_with_def Let_def w6_def)
  have ex': "(if sfx = ''.zip'' then unzip_file E ?F ?T (w3\<lparr>fs := t5\<rparr>)
              else untar_gz_file E ?F ?T (w3\<lparr>fs := t5\<rparr>)) = (None, w6)"
    using ex by (cases "sfx = ''.zip''") (simp_all add: unzip_file_def untar_gz_file_def)
  have k16: "dirs_kept t1 t6" using dirs_kept_trans[OF k15 k6] .
  have cd6: "isdir cache_dir t6" using isdir_kept[OF k16 cd] .
  have td6: "isdir (tmp_root E) t6" using isdir_kept[OF k16 td] .
  have iT6: "isdir ?T t6" using isdir_kept[OF k6 iT5] .
  have gF6: "get ?FL t6 = Some (File ?body)" using oth6[OF TF FT] gF5 by simp
  have ls: "listdir ?T t6 = Inr (map fst es)"
    using stat_isdir[OF iT6] gT6 lT by (simp add: listdir_def)
  define root where "root = single_dir_root ?T (map fst es) t6"
  from single_dir_root_entries[OF iT6, of es] gT6 lT nes have
    iroot6: "isdir root t6" and
    groot6: "get (loc root) t6 = Some (Dir R)" and
    rootloc: "\<exists>r. loc root = ?TL @ r"
    unfolding R_def root_def by auto
  from rootloc obtain r where rr: "loc root = ?TL @ r" by blast
  have a5: "take (length (loc root)) ?L \<noteq> loc root \<and> take (length ?L) (loc root) \<noteq> ?L"
    unfolding rr by (rule apart_extend[OF a4 a3])
  \<comment> \<open>the cache entry is created\<close>
  have "get ?L t6 = get ?L t1"
    using oth6[OF a4 a3] get_put_other[OF p5 a4 a3] get_put_other[OF p3 a2 a1]
      get_put_other[OF p1 a2 a1] by simp
  with fr have fr6: "get ?L t6 = None" by simp
  from path_mkdir_child[OF cd6 nb fr6] obtain t7 where
    p7: "put ?L (Dir []) t6 = Some t7" and mc: "path_mkdir ?cp t6 = Inr t7"
    by auto
  have un: "uncompress E sfx ?F ?cp w3 = (Inr (PathObj ?cp, root, Some ?T), w6\<lparr>fs := t7\<rparr>)"
    using arch md ex' ls mc unfolding uncompress_def root_def
    by (simp add: w6_def split del: if_split)
  have gcp7: "get ?L t7 = Some (Dir [])" using get_put_same[OF p7] .
  have k7: "dirs_kept t6 t7" using dirs_kept_put[OF p7] fr6 by simp
  have cd7: "isdir cache_dir t7" using isdir_kept[OF k7 cd6] .
  have icp7: "isdir ?cp t7" using isdir_child[OF cd7 nb] gcp7 by simp
  have iroot7: "isdir root t7" using isdir_kept[OF k7 iroot6] .
  have groot7: "get (loc root) t7 = Some (Dir R)"
    using get_put_other[OF p7, of "loc root"] a5 groot6 by simp
  have gT7: "get ?TL t7 = Some (Dir es)" using get_put_other[OF p7 a3 a4] gT6 by simp
  have gF7: "get ?FL t7 = Some (File ?body)" using get_put_other[OF p7 a1 a2] gF6 by simp
  \<comment> \<open>the copy\<close>
  have nR': "\<forall>n \<in> set (map fst R). \<not> special n \<and> copy_fault E (?cp @ [n]) = None"
    using nR nf by simp
  from copy_children_ok[of root "w6\<lparr>fs := t7\<rparr>" ?cp R "[]" "map fst R" E]
    iroot7 icp7 groot7 gcp7 lcp a5 distR nR'
  obtain w8 where
    cc': "copy_children E (PathObj ?cp) root (map fst R) (w6\<lparr>fs := t7\<rparr>) = (None, w8)" and
    gcp8': "get ?L (fs w8) = Some (Dir (map (\<lambda>n. (n, the (map_of R n))) (map fst R)))" and
    oth8: "\<And>q. take (length ?L) q \<noteq> ?L \<Longrightarrow> take (length q) ?L \<noteq> q \<Longrightarrow>
             get q (fs w8) = get q t7" and
    k8: "dirs_kept t7 (fs w8)" and
    l8: "net_log w8 = net_log w6"
    by auto
  have gcp8: "get ?L (fs w8) = Some (Dir R)" using gcp8' entries_of_names[OF distR] by simp
  have cc: "copy_to_cache E (PathObj ?cp) root (w6\<lparr>fs := t7\<rparr>) = (None, w8)"
    using cc' iroot7 stat_isdir[OF iroot7] groot7 by (simp add: copy_to_cache_def listdir_def)
  have k18: "dirs_kept t1 (fs w8)"
    using dirs_kept_trans[OF dirs_kept_trans[OF k16 k7] k8] .
  have td8: "isdir (tmp_root E) (fs w8)" using isdir_kept[OF k18 td] .
  have gT8: "get ?TL (fs w8) = Some (Dir es)" using oth8[OF a3 a4] gT7 by simp
  have gF8: "get ?FL (fs w8) = Some (File ?body)" using oth8[OF a1 a2] gF7 by simp
  \<comment> \<open>the cleanup\<close>
  define w9 where "w9 = w8\<lparr>fs := del ?TL (fs w8)\<rparr>"
  have rm: "rmtree ?T w8 = (None, w9)"
    using stat_child[OF td8 sT] gT8 unlink_child[OF td8 sT] by (simp add: rmtree_def w9_def)
  have k19: "dirs_kept t1 (fs w9)" using dirs_kept_del[OF k18 Tfr] by (simp add: w9_def)
  have td9: "isdir (tmp_root E) (fs w9)" using isdir_kept[OF k19 td] .
  have gF9: "get ?FL (fs w9) = Some (File ?body)"
    using get_del_other[OF TF FT] gF8 by (simp add: w9_def)
  define w' where "w' = w9\<lparr>open_fds := open_fds w9 - 1, fs := del ?FL (fs w9)\<rparr>"
  have orm: "os_remove ?F (w9\<lparr>open_fds := open_fds w9 - 1\<rparr>) = (None, w')"
    using stat_child[OF td9 sF] gF9 unlink_child[OF td9 sF] by (simp add: os_remove_def w'_def)
  have fb: "finally_block (PathObj ?cp) True (Some ?T) ?F w8 = (None, w')"
    using rm orm by (simp add: finally_block_def and_then_def os_close_def)
  have k1': "dirs_kept t1 (fs w')" using dirs_kept_del[OF k19 Ffr] by (simp add: w'_def)
  have cd': "isdir cache_dir (fs w')" using isdir_kept[OF k1' cd] .
  have "get ?L (fs w') = get ?L (fs w8)"
    using get_del_other[OF a2 a1] get_del_other[OF a4 a3] by (simp add: w'_def w9_def)
  with gcp8 stat_child[OF cd' nb] have scp: "stat ?cp (fs w') = Some (Dir R)" by simp
  then have "\<exists>p. get_filepath ?cp (fs w') = Inr p"
    by (simp add: get_filepath_def isdir_def listdir_def)
  then obtain p where gf: "get_filepath ?cp (fs w') = Inr p" by blast
  have ins: "install E (PathObj ?cp) root (Some ?T) ?F (w6\<lparr>fs := t7\<rparr>) = (Inr p, w')"
    using cc fb gf by (simp add: install_def)
  have dl: "download E url sfx ?cp (w\<lparr>fs := t1\<rparr>) = (Inr p, w')"
    using ms reply ok wr un ins by (simp add: download_def Let_def)
  have "net_log w' = net_log w @ [url]"
    using l8 by (simp add: w'_def w9_def w6_def w3_def w2_def)
  with start dl show ?thesis by simp
qed

text \<open>
  Claim C7. Let the URL name an archive whose decoder yields the top-level entries \<open>es\<close>
  with distinct names. Every fetch that sends the request and returns a path has
  installed, as the cache entry, the entries of the extraction root: when \<open>es\<close> is one
  directory, the entries of that directory, as they are, also when they are again one
  directory; in every other case (no entry, several entries, or one file) \<open>es\<close> itself.
  And the fetch does return when the lookup misses, the scratch names are free and name
  neither each other nor the cache entry, the server answers 200 with a stream that does
  not break, and no copy fails: the installation of a sole file, of several entries and
  of no entry succeeds like that of a sole directory.
\<close>

theorem get_from_cache_archive_root_collapsed_once:
  assumes reply: "http_get E url = Some req"
    and name: "split_filename_suffix (re_sub_dirs url) = (dir_name, sfx)"
    and dec: "(sfx = ''.zip'' \<and> unzip E (concat (chunks req)) = Some es) \<or>
              (sfx = ''.tar.gz'' \<and> untar_gz E (concat (chunks req)) = Some es)"
    and dist: "distinct (map fst es)"
    and dist_inner: "\<forall>d sub. es = [(d, Dir sub)] \<longrightarrow> distinct (map fst sub)"
  shows "(\<forall>p w'. get_from_cache E url cache_dir w = (Inr p, w') \<and> net_log w' \<noteq> net_log w \<longrightarrow>
            (\<forall>d sub. es = [(d, Dir sub)] \<longrightarrow>
               stat (cache_dir @ [dir_name]) (fs w') = Some (Dir sub)) \<and>
            ((\<nexists>d sub. es = [(d, Dir sub)]) \<longrightarrow>
               stat (cache_dir @ [dir_name]) (fs w') = Some (Dir es))) \<and>
         (status_code req = 200 \<and> content_length_ok req \<and> \<not> stream_breaks req \<and>
          (\<forall>n \<in> fst ` set es. \<not> special n) \<and>
          (\<forall>d sub. es = [(d, Dir sub)] \<longrightarrow> (\<forall>n \<in> fst ` set sub. \<not> special n)) \<and>
          (\<forall>dst. copy_fault E dst = None) \<and>
          path_mkdir cache_dir (fs w) = Inr t1 \<and>
          match_file E dir_name cache_dir t1 = Inr '''' \<and>
          \<not> exists (child cache_dir dir_name) t1 \<and>
          isdir (tmp_root E) t1 \<and>
          \<not> exists (tmp_root E @ [tmp_file_name E]) t1 \<and>
          \<not> exists (tmp_root E @ [tmp_dir_name E]) t1 \<and>
          tmp_file_name E \<noteq> tmp_dir_name E \<and>
          resolve (cache_dir @ [dir_name]) t1 \<noteq> resolve (tmp_root E @ [tmp_file_name E]) t1 \<and>
          resolve (cache_dir @ [dir_name]) t1 \<noteq> resolve (tmp_root E @ [tmp_dir_name E]) t1
          \<longrightarrow> (\<exists>p w'. get_from_cache E url cache_dir w = (Inr p, w') \<and> net_log w' \<noteq> net_log w))"
proof (intro conjI allI impI)
  fix p w' d sub
  assume run: "get_from_cache E url cache_dir w = (Inr p, w') \<and> net_log w' \<noteq> net_log w"
    and one: "es = [(d, Dir sub)]"
  from archive_fetch_content[OF run[THEN conjunct1] run[THEN conjunct2] reply name dec dist dist_inner]
    one
  show "stat (cache_dir @ [dir_name]) (fs w') = Some (Dir sub)" by simp
next
  fix p w'
  assume run: "get_from_cache E url cache_dir w = (Inr p, w') \<and> net_log w' \<noteq> net_log w"
    and other: "\<nexists>d sub. es = [(d, Dir sub)]"
  have "(case es of [(d, Dir sub)] \<Rightarrow> sub | _ \<Rightarrow> es) = es"
    using other by (simp split: list.splits node.splits prod.splits)
  with archive_fetch_content[OF run[THEN conjunct1] run[THEN conjunct2] reply name dec dist dist_inner]
  show "stat (cache_dir @ [dir_name]) (fs w') = Some (Dir es)" by simp
next
  assume pre: "status_code req = 200 \<and> content_length_ok req \<and> \<not> stream_breaks req \<and>
          (\<forall>n \<in> fst ` set es. \<not> special n) \<and>
          (\<forall>d sub. es = [(d, Dir sub)] \<longrightarrow> (\<forall>n \<in> fst ` set sub. \<not> special n)) \<and>
          (\<forall>dst. copy_fault E dst = None) \<and>
          path_mkdir cache_dir (fs w) = Inr t1 \<and>
          match_file E dir_name cache_dir t1 = Inr '''' \<and>
          \<not> exists (child cache_dir dir_name) t1 \<and>
          isdir (tmp_root E) t1 \<and>
          \<not> exists (tmp_root E @ [tmp_file_name E]) t1 \<and>
          \<not> exists (tmp_root E @ [tmp_dir_name E]) t1 \<and>
          tmp_file_name E \<noteq> tmp_dir_name E \<and>
          resolve (cache_dir @ [dir_name]) t1 \<noteq> resolve (tmp_root E @ [tmp_file_name E]) t1 \<and>
          resolve (cache_dir @ [dir_name]) t1 \<noteq> resolve (tmp_root E @ [tmp_dir_name E]) t1"
  show "\<exists>p w'. get_from_cache E url cache_dir w = (Inr p, w') \<and> net_log w' \<noteq> net_log w"
    by (rule archive_fetch_returns[OF reply name dec dist dist_inner]) (use pre in blast)+
qed

theorem get_from_cache_archive_root_collapsed_once_witness:
  "stat [''cache'', ''demo'']
     (fs (snd (get_from_cache env0 ''http://host/models/demo.zip'' [''cache''] world0)))
     = Some (Dir [(''a.txt'', File ''1''), (''b.txt'', File ''2'')]) \<and>
   stat [''cache'', ''demo'']
     (fs (snd (get_from_cache env_nested ''http://host/models/demo.zip'' [''cache''] world0)))
     = Some (Dir [(''inner'', Dir [(''a.txt'', File ''1'')])]) \<and>
   stat [''cache'', ''demo'']
     (fs (snd (get_from_cache env_sole_file ''http://host/models/demo.zip'' [''cache''] world0)))
     = Some (Dir [(''readme.txt'', File ''hi'')]) \<and>
   stat [''cache'', ''demo'']
     (fs (snd (get_from_cache env_two_entries ''http://host/models/demo.zip'' [''cache''] world0)))
     = Some (Dir [(''a.txt'', File ''1''), (''sub'', Dir [(''b.txt'', File ''2'')])]) \<and>
   stat [''cache'', ''demo'']
     (fs (snd (get_from_cache env_empty_archive ''http://host/models/demo.zip'' [''cache''] world0)))
     = Some (Dir []) \<and>
   (\<exists>p w'. get_from_cache env_sole_file ''http://host/models/demo.zip'' [''cache''] world0
              = (Inr p, w') \<and> net_log w' \<noteq> net_log world0) \<and>
   (\<exists>p w'. get_from_cache env_two_entries ''http://host/models/demo.zip'' [''cache''] world0
              = (Inr p, w') \<and> net_log w' \<noteq> net_log world0)"
proof -
  let ?url = "''http://host/models/demo.zip''"
  let ?es1 = "[(''demo'', Dir [(''a.txt'', File ''1''), (''b.txt'', File ''2'')])]"
  let ?es2 = "[(''outer'', Dir [(''inner'', Dir [(''a.txt'', File ''1'')])])]"
  let ?es3 = "[(''readme.txt'', File ''hi'')]"
  let ?es4 = "[(''a.txt'', File ''1''), (''sub'', Dir [(''b.txt'', File ''2'')])]"
  let ?es5 = "[] :: (string \<times> node) list"
  let ?w = "\<lambda>entry. \<lparr>fs = Dir [(''tmp'', Dir []), (''cache'', Dir [(''demo'', Dir entry)])],
       net_log = [?url], open_fds = 0, unpack_log = [[''tmp'', ''tmpf'']]\<rparr>"
  let ?w1 = "?w [(''a.txt'', File ''1''), (''b.txt'', File ''2'')]"
  let ?w2 = "?w [(''inner'', Dir [(''a.txt'', File ''1'')])]"
  let ?w3 = "?w ?es3"
  let ?w4 = "?w ?es4"
  let ?w5 = "?w ?es5"
  let ?t1 = "Dir [(''tmp'', Dir []), (''cache'', Dir [])]"
  let ?req = "\<lparr>status_code = 200, content_length_ok = True,
            chunks = [''abc'', '''', ''def''], stream_breaks = False\<rparr>"
  have run1: "get_from_cache env0 ?url [''cache''] world0 = (Inr [''cache'', ''demo''], ?w1)"
    by (simp add: run_defs)
  have run2: "get_from_cache env_nested ?url [''cache''] world0
      = (Inr [''cache'', ''demo'', ''inner''], ?w2)"
    by (simp add: run_defs)
  have run3: "get_from_cache env_sole_file ?url [''cache''] world0
      = (Inr [''cache'', ''demo'', ''readme.txt''], ?w3)"
    by (simp add: run_defs)
  have run4: "get_from_cache env_two_entries ?url [''cache''] world0
      = (Inr [''cache'', ''demo''], ?w4)"
    by (simp add: run_defs)
  have run5: "get_from_cache env_empty_archive ?url [''cache''] world0
      = (Inr [''cache'', ''demo''], ?w5)"
    by (simp add: run_defs)
  have sent: "net_log (?w entry) \<noteq> net_log world0" for entry
    by (simp add: world0_def)
  have reply1: "http_get env0 ?url = Some ?req" and reply2: "http_get env_nested ?url = Some ?req"
    and reply3: "http_get env_sole_file ?url = Some ?req"
    and reply4: "http_get env_two_entries ?url = Some ?req"
    and reply5: "http_get env_empty_archive ?url = Some ?req"
    by (simp_all add: env0_def env_nested_def env_sole_file_def env_two_entries_def
        env_empty_archive_def reply_ok_def)
  have name: "split_filename_suffix (re_sub_dirs ?url) = (''demo'', ''.zip'')"
    by (simp add: re_sub_dirs_def strip_line_def split_filename_suffix_def splitext_def
        basename_def endswith_def newline_def)
  have dec1: "(''.zip'' = ''.zip'' \<and> unzip env0 (concat (chunks ?req)) = Some ?es1) \<or>
              (''.zip'' = ''.tar.gz'' \<and> untar_gz env0 (concat (chunks ?req)) = Some ?es1)"
    by (simp add: env0_def demo_archive_def)
  have dec2: "(''.zip'' = ''.zip'' \<and> unzip env_nested (concat (chunks ?req)) = Some ?es2) \<or>
              (''.zip'' = ''.tar.gz'' \<and> untar_gz env_nested (concat (chunks ?req)) = Some ?es2)"
    by (simp add: env0_def env_nested_def nested_archive_def)
  have dec3: "(''.zip'' = ''.zip'' \<and> unzip env_sole_file (concat (chunks ?req)) = Some ?es3) \<or>
              (''.zip'' = ''.tar.gz'' \<and> untar_gz env_sole_file (concat (chunks ?req)) = Some ?es3)"
    by (simp add: env0_def env_sole_file_def sole_file_archive_def)
  have dec4: "(''.zip'' = ''.zip'' \<and> unzip env_two_entries (concat (chunks ?req)) = Some ?es4) \<or>
              (''.zip'' = ''.tar.gz'' \<and> untar_gz env_two_entries (concat (chunks ?req)) = Some ?es4)"
    by (simp add: env0_def env_two_entries_def two_entry_archive_def)
  have dec5: "(''.zip'' = ''.zip'' \<and> unzip env_empty_archive (concat (chunks ?req)) = Some ?es5) \<or>
              (''.zip'' = ''.tar.gz'' \<and> untar_gz env_empty_archive (concat (chunks ?req)) = Some ?es5)"
    by (simp add: env0_def env_empty_archive_def empty_archive_def)
  have d1: "distinct (map fst ?es1)" and d2: "distinct (map fst ?es2)"
    and d3: "distinct (map fst ?es3)" and d4: "distinct (map fst ?es4)"
    and d5: "distinct (map fst ?es5)" by simp_all
  have i1: "\<forall>d sub. ?es1 = [(d, Dir sub)] \<longrightarrow> distinct (map fst sub)" by simp
  have i2: "\<forall>d sub. ?es2 = [(d, Dir sub)] \<longrightarrow> distinct (map fst sub)" by simp
  have i3: "\<forall>d sub. ?es3 = [(d, Dir sub)] \<longrightarrow> distinct (map fst sub)" by simp
  have i4: "\<forall>d sub. ?es4 = [(d, Dir sub)] \<longrightarrow> distinct (map fst sub)" by simp
  have i5: "\<forall>d sub. ?es5 = [(d, Dir sub)] \<longrightarrow> distinct (map fst sub)" by simp
  note t1 = get_from_cache_archive_root_collapsed_once[OF reply1 name dec1 d1 i1,
      THEN conjunct1, rule_format, OF conjI[OF run1 sent]]
  note t2 = get_from_cache_archive_root_collapsed_once[OF reply2 name dec2 d2 i2,
      THEN conjunct1, rule_format, OF conjI[OF run2 sent]]
  note t3 = get_from_cache_archive_root_collapsed_once[OF reply3 name dec3 d3 i3,
      THEN conjunct1, rule_format, OF conjI[OF run3 sent]]
  note t4 = get_from_cache_archive_root_collapsed_once[OF reply4 name dec4 d4 i4,
      THEN conjunct1, rule_format, OF conjI[OF run4 sent]]
  note t5 = get_from_cache_archive_root_collapsed_once[OF reply5 name dec5 d5 i5,
      THEN conjunct1, rule_format, OF conjI[OF run5 sent]]
  have 1: "stat ([''cache''] @ [''demo'']) (fs ?w1)
      = Some (Dir [(''a.txt'', File ''1''), (''b.txt'', File ''2'')])"
    by (rule t1[THEN conjunct1, rule_format]) (rule refl)
  have 2: "stat ([''cache''] @ [''demo'']) (fs ?w2)
      = Some (Dir [(''inner'', Dir [(''a.txt'', File ''1'')])])"
    by (rule t2[THEN conjunct1, rule_format]) (rule refl)
  have 3: "stat ([''cache''] @ [''demo'']) (fs ?w3) = Some (Dir ?es3)"
    by (rule t3[THEN conjunct2, rule_format]) simp
  have 4: "stat ([''cache''] @ [''demo'']) (fs ?w4) = Some (Dir ?es4)"
    by (rule t4[THEN conjunct2, rule_format]) simp
  have 5: "stat ([''cache''] @ [''demo'']) (fs ?w5) = Some (Dir ?es5)"
    by (rule t5[THEN conjunct2, rule_format]) simp
  have mk: "path_mkdir [''cache''] (fs world0) = Inr ?t1"
    by (simp add: world0_def path_mkdir.simps os_mkdir_def resolve_def enter_def step_def
        isdir_def stat_def)
  have lookup: "match_file E ''demo'' [''cache''] ?t1 = Inr ''''" for E
    by (simp add: match_file_def listdir_def stat_def resolve_def enter_def step_def)
  have fsfacts: "\<not> exists (child [''cache''] ''demo'') ?t1 \<and> isdir [''tmp''] ?t1 \<and>
      \<not> exists ([''tmp''] @ [''tmpf'']) ?t1 \<and> \<not> exists ([''tmp''] @ [''tmpd'']) ?t1 \<and>
      resolve ([''cache''] @ [''demo'']) ?t1 \<noteq> resolve ([''tmp''] @ [''tmpf'']) ?t1 \<and>
      resolve ([''cache''] @ [''demo'']) ?t1 \<noteq> resolve ([''tmp''] @ [''tmpd'']) ?t1"
    by (simp add: child_def exists_def isdir_def stat_def resolve_def enter_def step_def)
  have pre3: "status_code ?req = 200 \<and> content_length_ok ?req \<and> \<not> stream_breaks ?req \<and>
          (\<forall>n \<in> fst ` set ?es3. \<not> special n) \<and>
          (\<forall>d sub. ?es3 = [(d, Dir sub)] \<longrightarrow> (\<forall>n \<in> fst ` set sub. \<not> special n)) \<and>
          (\<forall>dst. copy_fault env_sole_file dst = None) \<and>
          path_mkdir [''cache''] (fs world0) = Inr ?t1 \<and>
          match_file env_sole_file ''demo'' [''cache''] ?t1 = Inr '''' \<and>
          \<not> exists (child [''cache''] ''demo'') ?t1 \<and>
          isdir (tmp_root env_sole_file) ?t1 \<and>
          \<not> exists (tmp_root env_sole_file @ [tmp_file_name env_sole_file]) ?t1 \<and>
          \<not> exists (tmp_root env_sole_file @ [tmp_dir_name env_sole_file]) ?t1 \<and>
          tmp_file_name env_sole_file \<noteq> tmp_dir_name env_sole_file \<and>
          resolve ([''cache''] @ [''demo'']) ?t1
            \<noteq> resolve (tmp_root env_sole_file @ [tmp_file_name env_sole_file]) ?t1 \<and>
          resolve ([''cache''] @ [''demo'']) ?t1
            \<noteq> resolve (tmp_root env_sole_file @ [tmp_dir_name env_sole_file]) ?t1"
    using mk lookup[of env_sole_file] fsfacts
    by (simp add: env_sole_file_def env0_def no_fault_def special_def)
  have pre4: "status_code ?req = 200 \<and> content_length_ok ?req \<and> \<not> stream_breaks ?req \<and>
          (\<forall>n \<in> fst ` set ?es4. \<not> special n) \<and>
          (\<forall>d sub. ?es4 = [(d, Dir sub)] \<longrightarrow> (\<forall>n \<in> fst ` set sub. \<not> special n)) \<and>
          (\<forall>dst. copy_fault env_two_entries dst = None) \<and>
          path_mkdir [''cache''] (fs world0) = Inr ?t1 \<and>
          match_file env_two_entries ''demo'' [''cache''] ?t1 = Inr '''' \<and>
          \<not> exists (child [''cache''] ''demo'') ?t1 \<and>
          isdir (tmp_root env_two_entries) ?t1 \<and>
          \<not> exists (tmp_root env_two_entries @ [tmp_file_name env_two_entries]) ?t1 \<and>
          \<not> exists (tmp_root env_two_entries @ [tmp_dir_name env_two_entries]) ?t1 \<and>
          tmp_file_name env_two_entries \<noteq> tmp_dir_name env_two_entries \<and>
          resolve ([''cache''] @ [''demo'']) ?t1
            \<noteq> resolve (tmp_root env_two_entries @ [tmp_file_name env_two_entries]) ?t1 \<and>
          resolve ([''cache''] @ [''demo'']) ?t1
            \<noteq> resolve (tmp_root env_two_entries @ [tmp_dir_name env_two_entries]) ?t1"
    using mk lookup[of env_two_entries] fsfacts
    by (simp add: env_two_entries_def env0_def no_fault_def special_def)
  have 6: "\<exists>p w'. get_from_cache env_sole_file ?url [''cache''] world0 = (Inr p, w') \<and>
             net_log w' \<noteq> net_log world0"
    by (rule get_from_cache_archive_root_collapsed_once[OF reply3 name dec3 d3 i3,
          THEN conjunct2, THEN mp, OF pre3])
  have 7: "\<exists>p w'. get_from_cache env_two_entries ?url [''cache''] world0 = (Inr p, w') \<and>
             net_log w' \<noteq> net_log world0"
    by (rule get_from_cache_archive_root_collapsed_once[OF reply4 name dec4 d4 i4,
          THEN conjunct2, THEN mp, OF pre4])
  have s1: "snd (get_from_cache env0 ?url [''cache''] world0) = ?w1"
    by (simp only: run1 snd_conv)
  have s2: "snd (get_from_cache env_nested ?url [''cache''] world0) = ?w2"
    by (simp only: run2 snd_conv)
  have s3: "snd (get_from_cache env_sole_file ?url [''cache''] world0) = ?w3"
    by (simp only: run3 snd_conv)
  have s4: "snd (get_from_cache env_two_entries ?url [''cache''] world0) = ?w4"
    by (simp only: run4 snd_conv)
  have s5: "snd (get_from_cache env_empty_archive ?url [''cache''] world0) = ?w5"
    by (simp only: run5 snd_conv)
  have a: "[''cache''] @ [''demo''] = [''cache'', ''demo'']" by simp
  show ?thesis
    unfolding s1 s2 s3 s4 s5
    using 1 2 3 4 5 6 7 unfolding a by (intro conjI)
qed

subsection \<open>A reply other than 200\<close>

lemma put_fresh_file_exists:
  assumes p: "put p (File x) t = Some t'" and fr: "get p t = None" and ne: "q \<noteq> p"
  shows "(get q t' \<noteq> None) = (get q t \<noteq> None)"
proof -
  have gp: "get p t' = Some (File x)" using get_put_same[OF p] .
  show ?thesis
  proof (cases p q rule: path_cases)
    case apart
    from get_put_other[OF p apart] show ?thesis by simp
  next
    case same
    with ne show ?thesis by simp
  next
    case (below r)
    from get_file_below[OF gp below(2)] get_none_below[OF fr, of r] below(1)
    show ?thesis by simp
  next
    case (above r)
    have "get (q @ r) t' = Some (File x)" using gp above by simp
    from get_dir_above[OF this above(2)] have 1: "get q t' \<noteq> None" by auto
    from p have "p \<noteq> []" by auto
    then have pp: "p = butlast p @ [last p]" by simp
    from p pp put_parent_dir[of "butlast p" "last p" "File x" t t']
    have par: "get (butlast p) t \<noteq> None" by auto
    have "butlast p = q @ butlast r" using above by (simp add: butlast_append)
    with par get_prefix_exists[of q "butlast r" t] have "get q t \<noteq> None" by simp
    with 1 show ?thesis by simp
  qed
qed

text \<open>
  When the cache directory exists already and the scratch files are created in another
  directory, a reply other than 200 raises \<open>HTTPError\<close> and the cache directory has the
  entries it had.
\<close>

lemma get_from_cache_non_200_outside_tmp:
  assumes run: "get_from_cache E url cache_dir w = (r, w')"
    and sent: "net_log w' \<noteq> net_log w"
    and reply: "http_get E url = Some req"
    and status: "status_code req \<noteq> 200"
    and cdir: "isdir cache_dir (fs w)"
    and tmp: "resolve (tmp_root E) (fs w) \<noteq> resolve cache_dir (fs w)"
  shows "r = Inl HTTPError \<and>
         (\<forall>name. exists (cache_dir @ [name]) (fs w') = exists (cache_dir @ [name]) (fs w))"
proof -
  let ?cp = "cache_dir @ [fst (split_filename_suffix (re_sub_dirs url))]"
  let ?sfx = "snd (split_filename_suffix (re_sub_dirs url))"
  let ?FL = "loc (tmp_root E) @ [tmp_file_name E]"
  from get_from_cache_miss_path[OF run sent] obtain t1 where
    mk: "path_mkdir cache_dir (fs w) = Inr t1" and
    dl: "download E url ?sfx ?cp (w\<lparr>fs := t1\<rparr>) = (r, w')"
    by blast
  have t1: "t1 = fs w" using mk path_mkdir_isdir[OF cdir] by simp
  obtain F w1 where ms: "mkstemp E (w\<lparr>fs := t1\<rparr>) = (Inr F, w1)"
  proof (cases "mkstemp E (w\<lparr>fs := t1\<rparr>)")
    case (Pair a b)
    show ?thesis
    proof (cases a)
      case (Inl e)
      with Pair dl have "w' = b" by (simp add: download_def)
      moreover from Pair Inl have "b = w\<lparr>fs := t1\<rparr>"
        by (auto simp: mkstemp_def Let_def split: if_splits option.splits)
      ultimately show ?thesis using sent by simp
    next
      case (Inr F)
      with Pair that show ?thesis by simp
    qed
  qed
  from dl ms reply status have res: "r = Inl HTTPError" "fs w' = fs w1"
    by (auto simp: download_def Let_def)
  from mkstemp_Inr[OF ms] t1 have
    td: "isdir (tmp_root E) (fs w)" and Ffr: "get ?FL (fs w) = None" and
    p1: "put ?FL (File '''') (fs w) = Some (fs w1)"
    by auto
  have k: "dirs_kept (fs w) (fs w1)" using dirs_kept_put[OF p1] Ffr by simp
  have cdir1: "isdir cache_dir (fs w1)" using isdir_kept[OF k cdir] .
  have ne: "loc (tmp_root E) \<noteq> loc cache_dir"
    using tmp td cdir by (auto simp: isdir_iff)
  have "exists (cache_dir @ [name]) (fs w') = exists (cache_dir @ [name]) (fs w)" for name
  proof (cases "special name")
    case True
    with exists_special_child[OF cdir True] exists_special_child[OF cdir1 True] res
    show ?thesis by simp
  next
    case False
    have "loc cache_dir @ [name] \<noteq> ?FL" using ne by simp
    from put_fresh_file_exists[OF p1 Ffr this] stat_child[OF cdir False]
      stat_child[OF cdir1 False] res
    show ?thesis by (simp add: exists_def)
  qed
  with res show ?thesis by simp
qed


end
